theory Spec2Isabelle
  imports Complex_Main "HOL-Library.Log_Nat"
begin

section \<open>Numbers\<close>

text \<open>
  The program computes with IEEE double-precision numbers (Python \<open>float\<close>,
  \<open>numpy.float64\<close>).  They are embedded as the reals extended by the three
  special values.  Arithmetic on finite values is exact: rounding, overflow,
  underflow and the sign of zero are not represented.  The special values
  follow IEEE 754 (a zero divisor counts as \<open>+0\<close>).
\<close>

datatype fl = Fin real | PInf | NInf | NaN

fun fl_neg :: "fl \<Rightarrow> fl" where
  "fl_neg (Fin a) = Fin (- a)"
| "fl_neg PInf = NInf"
| "fl_neg NInf = PInf"
| "fl_neg NaN = NaN"

fun fl_add :: "fl \<Rightarrow> fl \<Rightarrow> fl" where
  "fl_add (Fin a) (Fin b) = Fin (a + b)"
| "fl_add NaN _ = NaN"
| "fl_add _ NaN = NaN"
| "fl_add PInf NInf = NaN"
| "fl_add NInf PInf = NaN"
| "fl_add PInf _ = PInf"
| "fl_add _ PInf = PInf"
| "fl_add NInf _ = NInf"
| "fl_add _ NInf = NInf"

fun fl_mul :: "fl \<Rightarrow> fl \<Rightarrow> fl" where
  "fl_mul (Fin a) (Fin b) = Fin (a * b)"
| "fl_mul NaN _ = NaN"
| "fl_mul _ NaN = NaN"
| "fl_mul (Fin a) PInf = (if a = 0 then NaN else if 0 < a then PInf else NInf)"
| "fl_mul (Fin a) NInf = (if a = 0 then NaN else if 0 < a then NInf else PInf)"
| "fl_mul PInf (Fin b) = (if b = 0 then NaN else if 0 < b then PInf else NInf)"
| "fl_mul NInf (Fin b) = (if b = 0 then NaN else if 0 < b then NInf else PInf)"
| "fl_mul PInf PInf = PInf"
| "fl_mul PInf NInf = NInf"
| "fl_mul NInf PInf = NInf"
| "fl_mul NInf NInf = PInf"

text \<open>Division as numpy performs it: a zero divisor gives an infinity or NaN
  (with a warning), it does not raise.\<close>

fun fl_div :: "fl \<Rightarrow> fl \<Rightarrow> fl" where
  "fl_div (Fin a) (Fin b) =
     (if b = 0 then (if a = 0 then NaN else if 0 < a then PInf else NInf)
      else Fin (a / b))"
| "fl_div NaN _ = NaN"
| "fl_div _ NaN = NaN"
| "fl_div (Fin a) PInf = Fin 0"
| "fl_div (Fin a) NInf = Fin 0"
| "fl_div PInf (Fin b) = (if 0 \<le> b then PInf else NInf)"
| "fl_div NInf (Fin b) = (if 0 \<le> b then NInf else PInf)"
| "fl_div PInf PInf = NaN"
| "fl_div PInf NInf = NaN"
| "fl_div NInf PInf = NaN"
| "fl_div NInf NInf = NaN"

fun fl_abs :: "fl \<Rightarrow> fl" where
  "fl_abs (Fin a) = Fin \<bar>a\<bar>"
| "fl_abs PInf = PInf"
| "fl_abs NInf = PInf"
| "fl_abs NaN = NaN"

fun fl_sqrt :: "fl \<Rightarrow> fl" where
  "fl_sqrt (Fin a) = (if 0 \<le> a then Fin (sqrt a) else NaN)"
| "fl_sqrt PInf = PInf"
| "fl_sqrt NInf = NaN"
| "fl_sqrt NaN = NaN"

text \<open>The comparisons \<open><\<close> and \<open>==\<close>: every comparison with NaN is false.\<close>

fun fl_lt :: "fl \<Rightarrow> fl \<Rightarrow> bool" where
  "fl_lt (Fin a) (Fin b) = (a < b)"
| "fl_lt NaN _ = False"
| "fl_lt _ NaN = False"
| "fl_lt _ NInf = False"
| "fl_lt PInf _ = False"
| "fl_lt NInf _ = True"
| "fl_lt _ PInf = True"

fun fl_eq :: "fl \<Rightarrow> fl \<Rightarrow> bool" where
  "fl_eq NaN _ = False"
| "fl_eq _ NaN = False"
| "fl_eq a b = (a = b)"

fun is_Fin :: "fl \<Rightarrow> bool" where
  "is_Fin (Fin a) = True"
| "is_Fin _ = False"

instantiation fl :: "{plus,minus,uminus,times,inverse,abs}"
begin

definition plus_fl_def: "a + b = fl_add a b"
definition minus_fl_def: "a - b = fl_add a (fl_neg b)"
definition uminus_fl_def: "- a = fl_neg a"
definition times_fl_def: "a * b = fl_mul a b"
definition divide_fl_def: "a div b = fl_div a b"
definition inverse_fl_def: "inverse a = fl_div (Fin 1) a"
definition abs_fl_def: "\<bar>a\<bar> = fl_abs a"

instance ..

end

section \<open>Exceptions\<close>

datatype exn =
    TypeError
  | ValueError
  | IndexError
  | ZeroDivisionError
  | NameError string
  | UnboundLocalError string
  | AttributeError
  | ConfigurationError

text \<open>Division of one Python \<open>float\<close> by another raises on a zero divisor.\<close>

definition py_div :: "fl \<Rightarrow> fl \<Rightarrow> exn + fl" where
  "py_div a b = (if fl_eq b (Fin 0) then Inl ZeroDivisionError else Inr (a / b))"

text \<open>Indexing a Python list of length \<open>n\<close>: a negative index counts from the end.\<close>

definition py_index :: "nat \<Rightarrow> int \<Rightarrow> nat option" where
  "py_index n i =
     (if 0 \<le> i \<and> i < int n then Some (nat i)
      else if - int n \<le> i \<and> i < 0 then Some (nat (int n + i))
      else None)"

text \<open>Sequencing of statements that may raise: the first exception ends the
  run of the statements.\<close>

definition raising :: "exn + 'a \<Rightarrow> ('a \<Rightarrow> exn + 'b) \<Rightarrow> exn + 'b" where
  "raising m k = (case m of Inl e \<Rightarrow> Inl e | Inr a \<Rightarrow> k a)"

lemma raising_cong [fundef_cong]:
  "m = m' \<Longrightarrow> (\<And>a. m' = Inr a \<Longrightarrow> k a = k' a) \<Longrightarrow> raising m k = raising m' k'"
  by (auto simp: raising_def split: sum.splits)

lemma raising_Inr [simp]: "raising (Inr a) k = k a"
  by (simp add: raising_def)

lemma raising_Inl [simp]: "raising (Inl e) k = Inl e"
  by (simp add: raising_def)

lemma raising_eq_Inr: "raising m k = Inr b \<longleftrightarrow> (\<exists>a. m = Inr a \<and> k a = Inr b)"
  by (cases m) auto

section \<open>Arrays\<close>

text \<open>
  A stored two-dimensional array is the list of its rows, \<open>a ! i ! j\<close> being
  \<open>a[i,j]\<close>.  The value of an array expression is a scalar, a two-dimensional
  array with its shape, or the exception its evaluation raised.  A
  one-dimensional array of length \<open>n\<close> is held as a \<open>1 \<times> n\<close> array, which is how
  numpy broadcasts it.
\<close>

type_synonym arr = "fl list list"

datatype nd = Sc fl | Ar nat nat arr | Err exn

definition ncols :: "arr \<Rightarrow> nat" where
  "ncols a = (case a of [] \<Rightarrow> 0 | row # _ \<Rightarrow> length row)"

definition tab :: "nat \<Rightarrow> nat \<Rightarrow> (nat \<Rightarrow> nat \<Rightarrow> fl) \<Rightarrow> arr" where
  "tab m n g = map (\<lambda>i. map (g i) [0..<n]) [0..<m]"

text \<open>Broadcasting: two axis lengths are compatible when they are equal or one
  of them is 1; an axis of length 1 is read at index 0 throughout.\<close>

definition bcompat :: "nat \<Rightarrow> nat \<Rightarrow> bool" where
  "bcompat m m' = (m = m' \<or> m = 1 \<or> m' = 1)"

definition bdim :: "nat \<Rightarrow> nat \<Rightarrow> nat" where
  "bdim m m' = (if m = 1 then m' else m)"

definition bidx :: "nat \<Rightarrow> nat \<Rightarrow> nat" where
  "bidx m i = (if m = 1 then 0 else i)"

fun nd_bin :: "(fl \<Rightarrow> fl \<Rightarrow> fl) \<Rightarrow> nd \<Rightarrow> nd \<Rightarrow> nd" where
  "nd_bin h (Err e) _ = Err e"
| "nd_bin h _ (Err e) = Err e"
| "nd_bin h (Sc a) (Sc b) = Sc (h a b)"
| "nd_bin h (Sc a) (Ar m n B) = Ar m n (tab m n (\<lambda>i j. h a (B ! i ! j)))"
| "nd_bin h (Ar m n A) (Sc b) = Ar m n (tab m n (\<lambda>i j. h (A ! i ! j) b))"
| "nd_bin h (Ar m n A) (Ar m' n' B) =
     (if bcompat m m' \<and> bcompat n n'
      then Ar (bdim m m') (bdim n n')
             (tab (bdim m m') (bdim n n')
                (\<lambda>i j. h (A ! bidx m i ! bidx n j) (B ! bidx m' i ! bidx n' j)))
      else Err ValueError)"

fun nd_un :: "(fl \<Rightarrow> fl) \<Rightarrow> nd \<Rightarrow> nd" where
  "nd_un h (Err e) = Err e"
| "nd_un h (Sc a) = Sc (h a)"
| "nd_un h (Ar m n A) = Ar m n (tab m n (\<lambda>i j. h (A ! i ! j)))"

instantiation nd :: "{plus,minus,uminus,times,inverse,abs}"
begin

definition plus_nd_def: "a + b = nd_bin (+) a b"
definition minus_nd_def: "a - b = nd_bin (-) a b"
definition uminus_nd_def: "- a = nd_un uminus a"
definition times_nd_def: "a * b = nd_bin (*) a b"
definition divide_nd_def: "a div b = nd_bin (/) a b"
definition inverse_nd_def: "inverse a = nd_un inverse a"
definition abs_nd_def: "\<bar>a\<bar> = nd_un abs a"

instance ..

end

text \<open>A slice \<open>lo:hi:step\<close> with a positive step, or the full slice \<open>:\<close>.  A bound
  below zero counts from the end, and bounds are clipped to the axis.\<close>

datatype slc = Sl int int nat | All

definition norm_bound :: "nat \<Rightarrow> int \<Rightarrow> nat" where
  "norm_bound len x = (if x < 0 then nat (max 0 (x + int len)) else min (nat x) len)"

fun idxs :: "nat \<Rightarrow> slc \<Rightarrow> nat list" where
  "idxs len All = [0..<len]"
| "idxs len (Sl lo hi st) =
     (let s = norm_bound len lo; e = norm_bound len hi
      in filter (\<lambda>i. (i - s) mod st = 0) [s..<e])"

text \<open>\<open>a[sx, sy]\<close> read as a value.\<close>

definition getitem :: "arr \<Rightarrow> slc \<Rightarrow> slc \<Rightarrow> nd" where
  "getitem a sx sy =
     (let is = idxs (length a) sx; js = idxs (ncols a) sy
      in Ar (length is) (length js) (map (\<lambda>i. map (\<lambda>j. a ! i ! j) js) is))"

text \<open>The value of the right-hand side brought to the shape \<open>m \<times> n\<close> of the
  target of an assignment.\<close>

fun bcast_to :: "nat \<Rightarrow> nat \<Rightarrow> nd \<Rightarrow> exn + arr" where
  "bcast_to m n (Err e) = Inl e"
| "bcast_to m n (Sc a) = Inr (tab m n (\<lambda>i j. a))"
| "bcast_to m n (Ar m' n' B) =
     (if (m' = m \<or> m' = 1) \<and> (n' = n \<or> n' = 1)
      then Inr (tab m n (\<lambda>i j. B ! bidx m' i ! bidx n' j))
      else Inl ValueError)"

fun put_row :: "fl list \<Rightarrow> nat list \<Rightarrow> fl list \<Rightarrow> fl list" where
  "put_row row (j # js) (x # xs) = put_row (row[j := x]) js xs"
| "put_row row _ _ = row"

fun put :: "arr \<Rightarrow> nat list \<Rightarrow> nat list \<Rightarrow> arr \<Rightarrow> arr" where
  "put a (i # is) js (row # rows) = put (a[i := put_row (a ! i) js row]) is js rows"
| "put a _ _ _ = a"

text \<open>\<open>a[sx, sy] = val\<close>: the right-hand side is evaluated in full before
  the cells of \<open>a\<close> are overwritten.\<close>

definition setitem :: "arr \<Rightarrow> slc \<Rightarrow> slc \<Rightarrow> nd \<Rightarrow> exn + arr" where
  "setitem a sx sy val =
     (let is = idxs (length a) sx; js = idxs (ncols a) sy
      in case bcast_to (length is) (length js) val of
           Inl e \<Rightarrow> Inl e
         | Inr B \<Rightarrow> Inr (put a is js B))"

text \<open>\<open>data.copy()\<close> on an argument of a call: an array is copied; a scalar argument
  is a Python float, which has no method \<open>copy\<close>.\<close>

fun nd_copy :: "nd \<Rightarrow> exn + nd" where
  "nd_copy (Err e) = Inl e"
| "nd_copy (Sc a) = Inl AttributeError"
| "nd_copy (Ar m n A) = Inr (Ar m n A)"

section \<open>The mesh collaborator\<close>

text \<open>
  The module \<open>mesh.patch\<close> supplies the grid, the per-level data object and the
  boundary and transfer operators.  A grid is a record of the attributes the
  program reads; the operators that work on whole arrays are parameters of the
  embedding.
\<close>

record grid2d =
  nx :: int
  ny :: int
  ng :: int
  xmin :: fl
  xmax :: fl
  ymin :: fl
  ymax :: fl
  dx :: fl
  dy :: fl
  ilo :: int
  ihi :: int
  jlo :: int
  jhi :: int
  qx :: int
  qy :: int

text \<open>Modelled from the spec: the constructor \<open>patch.grid2d\<close>.  The spacings
  are the extents over the cell counts, the arrays have \<open>nx + 2 ng\<close> by
  \<open>ny + 2 ng\<close> cells and the interior is \<open>[ng .. ng + nx - 1]\<close> in each
  direction.\<close>

definition grid2d_new :: "int \<Rightarrow> int \<Rightarrow> int \<Rightarrow> fl \<Rightarrow> fl \<Rightarrow> fl \<Rightarrow> fl \<Rightarrow> grid2d" where
  "grid2d_new nx_t ny_t ng_t x0 x1 y0 y1 =
     \<lparr> nx = nx_t, ny = ny_t, ng = ng_t,
       xmin = x0, xmax = x1, ymin = y0, ymax = y1,
       dx = (x1 - x0) / Fin (of_int nx_t),
       dy = (y1 - y0) / Fin (of_int ny_t),
       ilo = ng_t, ihi = ng_t + nx_t - 1,
       jlo = ng_t, jhi = ng_t + ny_t - 1,
       qx = nx_t + 2 * ng_t, qy = ny_t + 2 * ng_t \<rparr>"

record bcObject =
  xlb :: string
  xrb :: string
  ylb :: string
  yrb :: string

text \<open>One level of the hierarchy: a \<open>ccData2d\<close> object with the three
  registered variables \<open>v\<close>, \<open>f\<close> and \<open>r\<close>, which share one boundary
  condition object.\<close>

record ccData2d =
  grid :: grid2d
  bcs :: bcObject
  var_v :: arr
  var_f :: arr
  var_r :: arr

text \<open>
  The operators of \<open>mesh.patch\<close> that are parameters: the constructor of the
  boundary-condition object, the ghost-cell fill of one variable, and the
  transfer of one variable to the next coarser and the next finer grid.  The
  fill acts on the array it is given, as a function of the grid and the
  boundary kinds.
\<close>

record patch =
  bcObject_new :: "string \<Rightarrow> string \<Rightarrow> string \<Rightarrow> string \<Rightarrow> exn + bcObject"
  fillBC :: "grid2d \<Rightarrow> bcObject \<Rightarrow> arr \<Rightarrow> arr"
  restrict :: "grid2d \<Rightarrow> arr \<Rightarrow> nd"
  prolong :: "grid2d \<Rightarrow> arr \<Rightarrow> nd"

text \<open>Modelled from the spec: \<open>ccData2d.create\<close> allocates every registered
  variable as a zeroed array of the shape of the grid, and \<open>ccData2d.zero\<close>
  sets every cell of a variable to zero.\<close>

definition zeros :: "int \<Rightarrow> int \<Rightarrow> arr" where
  "zeros m n = tab (nat m) (nat n) (\<lambda>i j. Fin 0)"

definition zero :: "arr \<Rightarrow> arr" where
  "zero a = map (map (\<lambda>x. Fin 0)) a"

definition ccData2d_new :: "grid2d \<Rightarrow> bcObject \<Rightarrow> ccData2d" where
  "ccData2d_new g b =
     \<lparr> grid = g, bcs = b,
       var_v = zeros (qx g) (qy g), var_f = zeros (qx g) (qy g),
       var_r = zeros (qx g) (qy g) \<rparr>"

section \<open>The multigrid solver\<close>

record ccMG2d =
  mg_nx :: int
  mg_ny :: int
  mg_ng :: int
  mg_xmin :: fl
  mg_xmax :: fl
  mg_ymin :: fl
  mg_ymax :: fl
  alpha :: fl
  beta :: fl
  nsmooth :: int
  maxCycles :: int
  verbose :: int
  small :: fl
  initializedSolution :: int
  initializedRHS :: int
  nlevels :: int
  grids :: "ccData2d list"
  solnGrid :: grid2d
  sourceNorm :: fl
  numCycles :: int
  residualError :: fl
  relativeError :: fl

subsection \<open>smooth\<close>

text \<open>
  The four assignments of the loop body of \<open>smooth\<close>, in the order of the
  source.  Each reads \<open>f\<close> and the current \<open>v\<close> through strided slices and
  writes one strided slice of \<open>v\<close>.  In a pass the two coefficients are
  quotients of Python floats, and the boundary fill follows the second and the
  fourth assignment.  The \<open>print\<close> statement has no effect on the state.
\<close>

definition relax_ee :: "fl \<Rightarrow> fl \<Rightarrow> fl \<Rightarrow> grid2d \<Rightarrow> arr \<Rightarrow> arr \<Rightarrow> exn + arr" where
  "relax_ee \<alpha> xcoeff ycoeff myg f v =
     setitem v (Sl (ilo myg) (ihi myg + 1) 2) (Sl (jlo myg) (jhi myg + 1) 2)
       ((getitem f (Sl (ilo myg) (ihi myg + 1) 2) (Sl (jlo myg) (jhi myg + 1) 2) +
         Sc xcoeff * (getitem v (Sl (ilo myg + 1) (ihi myg + 2) 2) (Sl (jlo myg) (jhi myg + 1) 2) +
                      getitem v (Sl (ilo myg - 1) (ihi myg) 2) (Sl (jlo myg) (jhi myg + 1) 2)) +
         Sc ycoeff * (getitem v (Sl (ilo myg) (ihi myg + 1) 2) (Sl (jlo myg + 1) (jhi myg + 2) 2) +
                      getitem v (Sl (ilo myg) (ihi myg + 1) 2) (Sl (jlo myg - 1) (jhi myg) 2))) /
        Sc (\<alpha> + Fin 2 * xcoeff + Fin 2 * ycoeff))"

definition relax_oo :: "fl \<Rightarrow> fl \<Rightarrow> fl \<Rightarrow> grid2d \<Rightarrow> arr \<Rightarrow> arr \<Rightarrow> exn + arr" where
  "relax_oo \<alpha> xcoeff ycoeff myg f v =
     setitem v (Sl (ilo myg + 1) (ihi myg + 1) 2) (Sl (jlo myg + 1) (jhi myg + 1) 2)
       ((getitem f (Sl (ilo myg + 1) (ihi myg + 1) 2) (Sl (jlo myg + 1) (jhi myg + 1) 2) +
         Sc xcoeff * (getitem v (Sl (ilo myg + 2) (ihi myg + 2) 2) (Sl (jlo myg + 1) (jhi myg + 1) 2) +
                      getitem v (Sl (ilo myg) (ihi myg) 2) (Sl (jlo myg + 1) (jhi myg + 1) 2)) +
         Sc ycoeff * (getitem v (Sl (ilo myg + 1) (ihi myg + 1) 2) (Sl (jlo myg + 2) (jhi myg + 2) 2) +
                      getitem v (Sl (ilo myg + 1) (ihi myg + 1) 2) (Sl (jlo myg) (jhi myg) 2))) /
        Sc (\<alpha> + Fin 2 * xcoeff + Fin 2 * ycoeff))"

definition relax_oe :: "fl \<Rightarrow> fl \<Rightarrow> fl \<Rightarrow> grid2d \<Rightarrow> arr \<Rightarrow> arr \<Rightarrow> exn + arr" where
  "relax_oe \<alpha> xcoeff ycoeff myg f v =
     setitem v (Sl (ilo myg + 1) (ihi myg + 1) 2) (Sl (jlo myg) (jhi myg + 1) 2)
       ((getitem f (Sl (ilo myg + 1) (ihi myg + 1) 2) (Sl (jlo myg) (jhi myg + 1) 2) +
         Sc xcoeff * (getitem v (Sl (ilo myg + 2) (ihi myg + 2) 2) (Sl (jlo myg) (jhi myg + 1) 2) +
                      getitem v (Sl (ilo myg) (ihi myg) 2) (Sl (jlo myg) (jhi myg + 1) 2)) +
         Sc ycoeff * (getitem v (Sl (ilo myg + 1) (ihi myg + 1) 2) (Sl (jlo myg + 1) (jhi myg + 2) 2) +
                      getitem v (Sl (ilo myg + 1) (ihi myg + 1) 2) (Sl (jlo myg - 1) (jhi myg) 2))) /
        Sc (\<alpha> + Fin 2 * xcoeff + Fin 2 * ycoeff))"

definition relax_eo :: "fl \<Rightarrow> fl \<Rightarrow> fl \<Rightarrow> grid2d \<Rightarrow> arr \<Rightarrow> arr \<Rightarrow> exn + arr" where
  "relax_eo \<alpha> xcoeff ycoeff myg f v =
     setitem v (Sl (ilo myg) (ihi myg + 1) 2) (Sl (jlo myg + 1) (jhi myg + 1) 2)
       ((getitem f (Sl (ilo myg) (ihi myg + 1) 2) (Sl (jlo myg + 1) (jhi myg + 1) 2) +
         Sc xcoeff * (getitem v (Sl (ilo myg + 1) (ihi myg + 2) 2) (Sl (jlo myg + 1) (jhi myg + 1) 2) +
                      getitem v (Sl (ilo myg - 1) (ihi myg) 2) (Sl (jlo myg + 1) (jhi myg + 1) 2)) +
         Sc ycoeff * (getitem v (Sl (ilo myg) (ihi myg + 1) 2) (Sl (jlo myg + 2) (jhi myg + 2) 2) +
                      getitem v (Sl (ilo myg) (ihi myg + 1) 2) (Sl (jlo myg) (jhi myg) 2))) /
        Sc (\<alpha> + Fin 2 * xcoeff + Fin 2 * ycoeff))"

definition smooth_pass ::
  "(arr \<Rightarrow> arr) \<Rightarrow> fl \<Rightarrow> fl \<Rightarrow> grid2d \<Rightarrow> arr \<Rightarrow> arr \<Rightarrow> exn + arr" where
  "smooth_pass fill \<alpha> \<beta> myg f v =
     raising (py_div \<beta> (dx myg * dx myg)) (\<lambda>xcoeff.
     raising (py_div \<beta> (dy myg * dy myg)) (\<lambda>ycoeff.
     raising (relax_ee \<alpha> xcoeff ycoeff myg f v) (\<lambda>v1.
     raising (relax_oo \<alpha> xcoeff ycoeff myg f v1) (\<lambda>v2.
     raising (relax_oe \<alpha> xcoeff ycoeff myg f (fill v2)) (\<lambda>v3.
     raising (relax_eo \<alpha> xcoeff ycoeff myg f v3) (\<lambda>v4.
     Inr (fill v4)))))))"

text \<open>The loop \<open>while (i < nsmooth)\<close>.\<close>

function smooth_loop ::
  "(arr \<Rightarrow> arr) \<Rightarrow> fl \<Rightarrow> fl \<Rightarrow> grid2d \<Rightarrow> arr \<Rightarrow> int \<Rightarrow> int \<Rightarrow> arr \<Rightarrow> exn + arr" where
  "smooth_loop fill \<alpha> \<beta> myg f n i v =
     (if i < n
      then (case smooth_pass fill \<alpha> \<beta> myg f v of
              Inl e \<Rightarrow> Inl e
            | Inr v' \<Rightarrow> smooth_loop fill \<alpha> \<beta> myg f n (i + 1) v')
      else Inr v)"
  by pat_completeness auto
termination
  by (relation "measure (\<lambda>(fill, \<alpha>, \<beta>, myg, f, n, i, v). nat (n - i))") auto

declare smooth_loop.simps [simp del]

text \<open>\<open>smooth(level, nsmooth)\<close>: the arrays \<open>v\<close> and \<open>f\<close> of \<open>grids[level]\<close> are
  fetched, the ghost cells of \<open>v\<close> are filled, and the passes run on \<open>v\<close> in
  place.\<close>

definition smooth :: "patch \<Rightarrow> ccMG2d \<Rightarrow> int \<Rightarrow> int \<Rightarrow> exn + ccMG2d" where
  "smooth P self level n =
     (case py_index (length (grids self)) level of
        None \<Rightarrow> Inl IndexError
      | Some k \<Rightarrow>
          (let lev = grids self ! k;
               myg = grid lev;
               fill = fillBC P myg (bcs lev)
           in raising (smooth_loop fill (alpha self) (beta self) myg (var_f lev) n 0
                         (fill (var_v lev)))
                (\<lambda>v'. Inr (self\<lparr>grids := (grids self)[k := lev\<lparr>var_v := v'\<rparr>]\<rparr>))))"

subsection \<open>Construction\<close>

text \<open>
  The loop of \<open>__init__\<close> that builds the levels, coarsest first: level \<open>i\<close>
  has \<open>nx_t = ny_t = 2 ^ i\<close> interior cells in each direction and one ghost
  cell.
\<close>

function make_grids ::
  "patch \<Rightarrow> fl \<Rightarrow> fl \<Rightarrow> fl \<Rightarrow> fl \<Rightarrow> string \<Rightarrow> string \<Rightarrow> string \<Rightarrow> string \<Rightarrow>
   int \<Rightarrow> int \<Rightarrow> int \<Rightarrow> int \<Rightarrow> ccData2d list \<Rightarrow> exn + ccData2d list" where
  "make_grids P x0 x1 y0 y1 xl xr yl yr nl i nx_t ny_t gs =
     (if i < nl
      then (case bcObject_new P xl xr yl yr of
              Inl e \<Rightarrow> Inl e
            | Inr bcObj \<Rightarrow>
                make_grids P x0 x1 y0 y1 xl xr yl yr nl (i + 1) (nx_t * 2) (ny_t * 2)
                  (gs @ [ccData2d_new (grid2d_new nx_t ny_t 1 x0 x1 y0 y1) bcObj]))
      else Inr gs)"
  by pat_completeness auto
termination
  by (relation "measure (\<lambda>(P, x0, x1, y0, y1, xl, xr, yl, yr, nl, i, nx_t, ny_t, gs). nat (nl - i))")
     auto

declare make_grids.simps [simp del]

text \<open>
  \<open>ccMG2d(nx, ny, xmin, xmax, ymin, ymax, xlBCtype, ..., alpha, beta, verbose)\<close>.
  The two checks print a message and execute \<open>return -1\<close>; a value other than
  \<open>None\<close> returned from \<open>__init__\<close> makes the instantiation raise
  \<open>TypeError\<close>.  \<open>math.log\<close> raises \<open>ValueError\<close> unless its argument is
  positive.  The number of levels is the truncated quotient of the two
  logarithms plus one, taken in exact arithmetic.  The coordinate arrays
  copied from the solution grid are not part of the grid record.
\<close>

definition ccMG2d_init ::
  "patch \<Rightarrow> int \<Rightarrow> int \<Rightarrow> fl \<Rightarrow> fl \<Rightarrow> fl \<Rightarrow> fl \<Rightarrow> string \<Rightarrow> string \<Rightarrow> string \<Rightarrow> string \<Rightarrow>
   fl \<Rightarrow> fl \<Rightarrow> int \<Rightarrow> exn + ccMG2d" where
  "ccMG2d_init P nx_a ny_a x0 x1 y0 y1 xlBCtype xrBCtype ylBCtype yrBCtype \<alpha> \<beta> verb =
     (if nx_a \<noteq> ny_a then Inl TypeError
      else if \<not> fl_eq (x1 - x0) (y1 - y0) then Inl TypeError
      else if nx_a \<le> 0 then Inl ValueError
      else
        (let nl = \<lfloor>ln (of_int nx_a) / ln (2 :: real)\<rfloor> + 1
         in case make_grids P x0 x1 y0 y1 xlBCtype xrBCtype ylBCtype yrBCtype nl 0 1 1 [] of
              Inl e \<Rightarrow> Inl e
            | Inr gs \<Rightarrow>
                (case py_index (length gs) (nl - 1) of
                   None \<Rightarrow> Inl IndexError
                 | Some k \<Rightarrow>
                     Inr \<lparr> mg_nx = nx_a, mg_ny = ny_a, mg_ng = 1,
                           mg_xmin = x0, mg_xmax = x1, mg_ymin = y0, mg_ymax = y1,
                           alpha = \<alpha>, beta = \<beta>,
                           nsmooth = 10, maxCycles = 100, verbose = verb,
                           small = Fin (1 / 10 ^ 16),
                           initializedSolution = 0, initializedRHS = 0,
                           nlevels = nl, grids = gs, solnGrid = grid (gs ! k),
                           sourceNorm = Fin 0, numCycles = 0,
                           residualError = Fin (10 ^ 33),
                           relativeError = Fin (10 ^ 33) \<rparr>)))"

text \<open>The number of levels, computed on the naturals.\<close>

lemma nlevels_floorlog:
  assumes "0 < n"
  shows "\<lfloor>ln (of_int n) / ln (2 :: real)\<rfloor> + 1 = int (floorlog 2 (nat n))"
proof -
  have "log 2 (real (nat n)) = ln (of_int n) / ln 2"
    using assms by (simp add: log_def)
  moreover have "0 \<le> \<lfloor>log 2 (real (nat n))\<rfloor>"
    using assms by (simp add: zero_le_log_cancel_iff)
  ultimately show ?thesis using assms by (simp add: floorlog_def)
qed

lemma ccMG2d_init_code [code]:
  "ccMG2d_init P nx_a ny_a x0 x1 y0 y1 xlBCtype xrBCtype ylBCtype yrBCtype \<alpha> \<beta> verb =
     (if nx_a \<noteq> ny_a then Inl TypeError
      else if \<not> fl_eq (x1 - x0) (y1 - y0) then Inl TypeError
      else if nx_a \<le> 0 then Inl ValueError
      else
        (let nl = int (floorlog 2 (nat nx_a))
         in case make_grids P x0 x1 y0 y1 xlBCtype xrBCtype ylBCtype yrBCtype nl 0 1 1 [] of
              Inl e \<Rightarrow> Inl e
            | Inr gs \<Rightarrow>
                (case py_index (length gs) (nl - 1) of
                   None \<Rightarrow> Inl IndexError
                 | Some k \<Rightarrow>
                     Inr \<lparr> mg_nx = nx_a, mg_ny = ny_a, mg_ng = 1,
                           mg_xmin = x0, mg_xmax = x1, mg_ymin = y0, mg_ymax = y1,
                           alpha = \<alpha>, beta = \<beta>,
                           nsmooth = 10, maxCycles = 100, verbose = verb,
                           small = Fin (1 / 10 ^ 16),
                           initializedSolution = 0, initializedRHS = 0,
                           nlevels = nl, grids = gs, solnGrid = grid (gs ! k),
                           sourceNorm = Fin 0, numCycles = 0,
                           residualError = Fin (10 ^ 33),
                           relativeError = Fin (10 ^ 33) \<rparr>)))"
  unfolding ccMG2d_init_def by (simp add: nlevels_floorlog)


subsection \<open>Setting the solution and the right-hand side\<close>

text \<open>\<open>error(myg, r)\<close>: the square root of \<open>dx dy\<close> times the sum of the squares over
  the interior.\<close>

fun nd_sum :: "nd \<Rightarrow> exn + fl" where
  "nd_sum (Err e) = Inl e"
| "nd_sum (Sc a) = Inr a"
| "nd_sum (Ar m n A) = Inr (foldl (+) (Fin 0) (concat A))"

definition error :: "grid2d \<Rightarrow> arr \<Rightarrow> exn + fl" where
  "error myg r =
     raising (nd_sum (nd_un (\<lambda>x. x * x)
                (getitem r (Sl (ilo myg) (ihi myg + 1) 1) (Sl (jlo myg) (jhi myg + 1) 1))))
       (\<lambda>s. Inr (fl_sqrt (dx myg * dy myg * s)))"

text \<open>The finest level is \<open>self.grids[self.nlevels-1]\<close>.\<close>

definition finest :: "ccMG2d \<Rightarrow> exn + nat" where
  "finest self =
     (case py_index (length (grids self)) (nlevels self - 1) of
        None \<Rightarrow> Inl IndexError | Some k \<Rightarrow> Inr k)"

definition getSolution :: "ccMG2d \<Rightarrow> exn + arr" where
  "getSolution self = raising (finest self) (\<lambda>k. Inr (var_v (grids self ! k)))"

definition initSolution :: "ccMG2d \<Rightarrow> nd \<Rightarrow> exn + ccMG2d" where
  "initSolution self data =
     raising (finest self) (\<lambda>k.
     raising (nd_copy data) (\<lambda>d.
     raising (setitem (var_v (grids self ! k)) All All d) (\<lambda>v'.
     Inr (self\<lparr>grids := (grids self)[k := (grids self ! k)\<lparr>var_v := v'\<rparr>],
               initializedSolution := 1\<rparr>))))"

definition initZeros :: "ccMG2d \<Rightarrow> exn + ccMG2d" where
  "initZeros self =
     raising (finest self) (\<lambda>k.
     raising (setitem (var_v (grids self ! k)) All All (Sc (Fin 0))) (\<lambda>v'.
     Inr (self\<lparr>grids := (grids self)[k := (grids self ! k)\<lparr>var_v := v'\<rparr>],
               initializedSolution := 1\<rparr>)))"

definition initRHS :: "ccMG2d \<Rightarrow> nd \<Rightarrow> exn + ccMG2d" where
  "initRHS self data =
     raising (finest self) (\<lambda>k.
     raising (nd_copy data) (\<lambda>d.
     raising (setitem (var_f (grids self ! k)) All All d) (\<lambda>f'.
     raising (error (grid (grids self ! k)) f') (\<lambda>nrm.
     Inr (self\<lparr>grids := (grids self)[k := (grids self ! k)\<lparr>var_f := f'\<rparr>],
               sourceNorm := nrm, initializedRHS := 1\<rparr>)))))"

subsection \<open>computeResidual\<close>

text \<open>\<open>r = f - alpha v + beta L v\<close> on the interior of the level; the divisions by
  \<open>dx*dx\<close> and \<open>dy*dy\<close> are divisions of arrays.\<close>

definition computeResidual :: "ccMG2d \<Rightarrow> int \<Rightarrow> exn + ccMG2d" where
  "computeResidual self level =
     (case py_index (length (grids self)) level of
        None \<Rightarrow> Inl IndexError
      | Some k \<Rightarrow>
          (let lev = grids self ! k; v = var_v lev; f = var_f lev; r = var_r lev;
               myg = grid lev
           in raising
                (setitem r (Sl (ilo myg) (ihi myg + 1) 1) (Sl (jlo myg) (jhi myg + 1) 1)
                   (getitem f (Sl (ilo myg) (ihi myg + 1) 1) (Sl (jlo myg) (jhi myg + 1) 1) -
                    Sc (alpha self) *
                      getitem v (Sl (ilo myg) (ihi myg + 1) 1) (Sl (jlo myg) (jhi myg + 1) 1) +
                    Sc (beta self) *
                      ((getitem v (Sl (ilo myg - 1) (ihi myg) 1) (Sl (jlo myg) (jhi myg + 1) 1) +
                        getitem v (Sl (ilo myg + 1) (ihi myg + 2) 1) (Sl (jlo myg) (jhi myg + 1) 1) -
                        Sc (Fin 2) *
                          getitem v (Sl (ilo myg) (ihi myg + 1) 1) (Sl (jlo myg) (jhi myg + 1) 1)) /
                       Sc (dx myg * dx myg) +
                       (getitem v (Sl (ilo myg) (ihi myg + 1) 1) (Sl (jlo myg - 1) (jhi myg) 1) +
                        getitem v (Sl (ilo myg) (ihi myg + 1) 1) (Sl (jlo myg + 1) (jhi myg + 2) 1) -
                        Sc (Fin 2) *
                          getitem v (Sl (ilo myg) (ihi myg + 1) 1) (Sl (jlo myg) (jhi myg + 1) 1)) /
                       Sc (dy myg * dy myg))))
                (\<lambda>r'. Inr (self\<lparr>grids := (grids self)[k := lev\<lparr>var_r := r'\<rparr>]\<rparr>))))"

text \<open>Two states that differ in the arrays of the levels at most.\<close>

definition same_but_grids :: "ccMG2d \<Rightarrow> ccMG2d \<Rightarrow> bool" where
  "same_but_grids s s' = (s' = s\<lparr>grids := grids s'\<rparr> \<and> length (grids s') = length (grids s))"

lemma same_but_grids_refl [simp]: "same_but_grids s s"
  by (simp add: same_but_grids_def)

lemma same_but_grids_trans:
  "same_but_grids s s' \<Longrightarrow> same_but_grids s' s'' \<Longrightarrow> same_but_grids s s''"
  by (cases s; cases s'; cases s'') (simp add: same_but_grids_def)

lemma same_but_grids_update [simp]:
  "length gs = length (grids s) \<Longrightarrow> same_but_grids s (s\<lparr>grids := gs\<rparr>)"
  by (simp add: same_but_grids_def)

lemma smooth_fields:
  "smooth P self level n = Inr s' \<Longrightarrow> same_but_grids self s'"
  by (auto simp: smooth_def Let_def raising_eq_Inr split: option.splits)

lemma computeResidual_fields:
  "computeResidual self level = Inr s' \<Longrightarrow> same_but_grids self s'"
  by (auto simp: computeResidual_def Let_def raising_eq_Inr split: option.splits)

subsection \<open>solve\<close>

text \<open>The first loop of a V-cycle: \<open>v\<close> is zeroed on the levels \<open>0\<close> to
  \<open>nlevels - 2\<close>.\<close>

function zero_loop :: "ccMG2d \<Rightarrow> int \<Rightarrow> exn + ccMG2d" where
  "zero_loop self level =
     (if level < nlevels self - 1
      then (case py_index (length (grids self)) level of
              None \<Rightarrow> Inl IndexError
            | Some k \<Rightarrow>
                zero_loop
                  (self\<lparr>grids := (grids self)[k := (grids self ! k)
                                    \<lparr>var_v := zero (var_v (grids self ! k))\<rparr>]\<rparr>)
                  (level + 1))
      else Inr self)"
  by pat_completeness auto
termination
  by (relation "measure (\<lambda>(self, level). nat (nlevels self - 1 - level))") auto

declare zero_loop.simps [simp del]

text \<open>The residual that is computed only for the printed norms.\<close>

definition verbose_residual :: "ccMG2d \<Rightarrow> int \<Rightarrow> exn + ccMG2d" where
  "verbose_residual self level =
     (if verbose self \<noteq> 0 then computeResidual self level else Inr self)"

text \<open>The descending loop, \<open>while (level > 0)\<close>: \<open>fP\<close> is \<open>grids[level]\<close> and \<open>cP\<close>
  is \<open>grids[level-1]\<close>; both are read again after the calls that change the
  arrays of \<open>fP\<close> in place.\<close>

function descent :: "patch \<Rightarrow> ccMG2d \<Rightarrow> int \<Rightarrow> exn + ccMG2d" where
  "descent P self level =
     (if level > 0
      then (case py_index (length (grids self)) level of
              None \<Rightarrow> Inl IndexError
            | Some kf \<Rightarrow>
               (case py_index (length (grids self)) (level - 1) of
                  None \<Rightarrow> Inl IndexError
                | Some kc \<Rightarrow>
                   raising (verbose_residual self level) (\<lambda>s1.
                   raising (smooth P s1 level (nsmooth s1)) (\<lambda>s2.
                   raising (computeResidual s2 level) (\<lambda>s3.
                   raising (setitem (var_f (grids s3 ! kc)) All All
                              (restrict P (grid (grids s3 ! kf)) (var_r (grids s3 ! kf))))
                     (\<lambda>f'.
                   descent P
                     (s3\<lparr>grids := (grids s3)[kc := (grids s3 ! kc)\<lparr>var_f := f'\<rparr>]\<rparr>)
                     (level - 1)))))))
      else Inr self)"
  by pat_completeness auto
termination
  by (relation "measure (\<lambda>(P, self, level). nat level)") auto

declare descent.simps [simp del]

text \<open>An integer index on the first axis: \<open>a[i]\<close> is row \<open>i\<close>, a one-dimensional
  array.\<close>

definition getrow :: "arr \<Rightarrow> int \<Rightarrow> exn + nd" where
  "getrow a i =
     (case py_index (length a) i of
        None \<Rightarrow> Inl IndexError
      | Some k \<Rightarrow> Inr (Ar 1 (length (a ! k)) [a ! k]))"

definition setrow :: "arr \<Rightarrow> int \<Rightarrow> nd \<Rightarrow> exn + arr" where
  "setrow a i val =
     (case py_index (length a) i of
        None \<Rightarrow> Inl IndexError
      | Some k \<Rightarrow> raising (bcast_to 1 (length (a ! k)) val) (\<lambda>B. Inr (a[k := B ! 0])))"

text \<open>The bottom solve on \<open>grids[0]\<close>:
  \<open>v[bP.grid.ilo] = -0.125*f[bP.grid.ilo]*bP.grid.dx*bP.grid.dx\<close> followed by
  \<open>bP.fillBC("v")\<close>.  The single index selects a whole row of the array.\<close>

definition bottom_solve :: "patch \<Rightarrow> ccMG2d \<Rightarrow> exn + ccMG2d" where
  "bottom_solve P self =
     (case py_index (length (grids self)) 0 of
        None \<Rightarrow> Inl IndexError
      | Some k \<Rightarrow>
         (let bP = grids self ! k in
          raising (getrow (var_f bP) (ilo (grid bP))) (\<lambda>frow.
          raising (setrow (var_v bP) (ilo (grid bP))
                     (Sc (Fin (- 0.125)) * frow * Sc (dx (grid bP)) * Sc (dx (grid bP))))
            (\<lambda>v'.
          Inr (self\<lparr>grids := (grids self)[k := bP\<lparr>var_v := fillBC P (grid bP) (bcs bP) v'\<rparr>]\<rparr>)))))"

lemma verbose_residual_fields:
  "verbose_residual self level = Inr s' \<Longrightarrow> same_but_grids self s'"
  by (auto simp: verbose_residual_def dest: computeResidual_fields split: if_splits)

lemma same_but_grids_nlevels: "same_but_grids s s' \<Longrightarrow> nlevels s' = nlevels s"
  by (cases s; cases s') (simp add: same_but_grids_def)

lemma smooth_nlevels: "smooth P self level n = Inr s' \<Longrightarrow> nlevels s' = nlevels self"
  by (auto dest: smooth_fields same_but_grids_nlevels)

lemma verbose_residual_nlevels:
  "verbose_residual self level = Inr s' \<Longrightarrow> nlevels s' = nlevels self"
  by (auto dest: verbose_residual_fields same_but_grids_nlevels)

text \<open>The ascending loop, \<open>while (level < self.nlevels)\<close>: the prolonged coarse
  \<open>v\<close> is added to the \<open>v\<close> of \<open>grids[level]\<close> in place, then the level is
  smoothed.\<close>

function ascent :: "patch \<Rightarrow> ccMG2d \<Rightarrow> int \<Rightarrow> exn + ccMG2d" where
  "ascent P self level =
     (if level < nlevels self
      then (case py_index (length (grids self)) level of
              None \<Rightarrow> Inl IndexError
            | Some kf \<Rightarrow>
               (case py_index (length (grids self)) (level - 1) of
                  None \<Rightarrow> Inl IndexError
                | Some kc \<Rightarrow>
                   raising (setitem (var_v (grids self ! kf)) All All
                              (getitem (var_v (grids self ! kf)) All All +
                               prolong P (grid (grids self ! kc)) (var_v (grids self ! kc))))
                     (\<lambda>v'.
                   raising (verbose_residual
                              (self\<lparr>grids := (grids self)[kf := (grids self ! kf)\<lparr>var_v := v'\<rparr>]\<rparr>)
                              level) (\<lambda>s2.
                   raising (smooth P s2 level (nsmooth s2)) (\<lambda>s3.
                   raising (verbose_residual s3 level) (\<lambda>s4.
                   ascent P s4 (level + 1)))))))
      else Inr self)"
  by pat_completeness auto
termination
  by (relation "measure (\<lambda>(P, self, level). nat (nlevels self - level))")
     (auto dest!: smooth_nlevels verbose_residual_nlevels)

declare ascent.simps [simp del]

text \<open>The body of the loop of \<open>solve\<close> up to the end of the ascent.\<close>

definition vcycle :: "patch \<Rightarrow> ccMG2d \<Rightarrow> exn + ccMG2d" where
  "vcycle P self =
     raising (zero_loop self 0) (\<lambda>s0.
     raising (descent P s0 (nlevels s0 - 1)) (\<lambda>s1.
     raising (bottom_solve P s1) (\<lambda>s2.
     ascent P s2 1)))"

text \<open>An array value as a stored array.\<close>

fun nd_arr :: "nd \<Rightarrow> exn + arr" where
  "nd_arr (Err e) = Inl e"
| "nd_arr (Sc a) = Inl IndexError"
| "nd_arr (Ar m n A) = Inr A"

text \<open>
  The rest of the body: the relative change of the solution, the residual on
  the finest level and the convergence test.  The residual is read through
  \<open>fP\<close>, which is bound by the descending and the ascending loop only; after
  the ascent it is \<open>grids[nlevels-1]\<close>.
\<close>

definition fP_bound :: "ccMG2d \<Rightarrow> exn + unit" where
  "fP_bound self = (if nlevels self < 2 then Inl (UnboundLocalError ''fP'') else Inr ())"

definition residual_error :: "ccMG2d \<Rightarrow> fl \<Rightarrow> fl" where
  "residual_error self nrm =
     (if \<not> fl_eq (sourceNorm self) (Fin 0) then nrm / sourceNorm self else nrm)"

text \<open>The statements under \<open>if (residualError < rtol)\<close>.\<close>

definition converged_update :: "patch \<Rightarrow> ccMG2d \<Rightarrow> nat \<Rightarrow> int \<Rightarrow> fl \<Rightarrow> fl \<Rightarrow> ccMG2d" where
  "converged_update P self k cycle relErr resErr =
     self\<lparr>numCycles := cycle, relativeError := relErr, residualError := resErr,
          grids := (grids self)[k := (grids self ! k)
             \<lparr>var_v := fillBC P (grid (grids self ! k)) (bcs (grids self ! k))
                        (var_v (grids self ! k))\<rparr>]\<rparr>"

text \<open>The result is the flag \<open>converged\<close>, the state and the new
  \<open>oldSolution\<close>.\<close>

definition cycle_end ::
  "patch \<Rightarrow> fl \<Rightarrow> ccMG2d \<Rightarrow> arr \<Rightarrow> int \<Rightarrow> exn + bool \<times> ccMG2d \<times> arr" where
  "cycle_end P rtol self oldSolution cycle =
     raising (finest self) (\<lambda>k.
     raising (nd_arr ((getitem (var_v (grids self ! k)) All All -
                       getitem oldSolution All All) /
                      (getitem (var_v (grids self ! k)) All All + Sc (small self)))) (\<lambda>diff.
     raising (error (grid (grids self ! k)) diff) (\<lambda>relErr.
     raising (computeResidual self (nlevels self - 1)) (\<lambda>s1.
     raising (fP_bound self) (\<lambda>u.
     raising (error (grid (grids s1 ! k)) (var_r (grids s1 ! k))) (\<lambda>nrm.
     if fl_lt (residual_error s1 nrm) rtol
     then Inr (True, converged_update P s1 k cycle relErr (residual_error s1 nrm),
               var_v (grids self ! k))
     else Inr (False, s1, var_v (grids self ! k))))))))"

text \<open>None of the loops of a V-cycle changes anything but the arrays of the levels.\<close>

lemma zero_loop_fields: "zero_loop self level = Inr s' \<Longrightarrow> same_but_grids self s'"
proof (induction self level rule: zero_loop.induct)
  case (1 self level)
  show ?case
  proof (cases "level < nlevels self - 1")
    case False
    with "1.prems" show ?thesis by (simp add: zero_loop.simps [of self level])
  next
    case True
    with "1.prems" obtain k where k: "py_index (length (grids self)) level = Some k"
      by (simp add: zero_loop.simps [of self level] split: option.splits)
    let ?s = "self\<lparr>grids := (grids self)[k := (grids self ! k)\<lparr>var_v := zero (var_v (grids self ! k))\<rparr>]\<rparr>"
    from "1.prems" True k have "zero_loop ?s (level + 1) = Inr s'"
      by (simp add: zero_loop.simps [of self level])
    with "1.IH" [OF True k] have "same_but_grids ?s s'" by simp
    moreover have "same_but_grids self ?s" by simp
    ultimately show ?thesis by (rule same_but_grids_trans [rotated])
  qed
qed

lemma descent_fields: "descent P self level = Inr s' \<Longrightarrow> same_but_grids self s'"
proof (induction P self level rule: descent.induct)
  case (1 P self level)
  show ?case
  proof (cases "level > 0")
    case False
    with "1.prems" show ?thesis by (simp add: descent.simps [of P self level])
  next
    case True
    with "1.prems" obtain kf kc s1 s2 s3 f' where
      kf: "py_index (length (grids self)) level = Some kf" and
      kc: "py_index (length (grids self)) (level - 1) = Some kc" and
      s1: "verbose_residual self level = Inr s1" and
      s2: "smooth P s1 level (nsmooth s1) = Inr s2" and
      s3: "computeResidual s2 level = Inr s3" and
      f': "setitem (var_f (grids s3 ! kc)) All All
             (restrict P (grid (grids s3 ! kf)) (var_r (grids s3 ! kf))) = Inr f'" and
      rest: "descent P (s3\<lparr>grids := (grids s3)[kc := (grids s3 ! kc)\<lparr>var_f := f'\<rparr>]\<rparr>) (level - 1) = Inr s'"
      by (auto simp: descent.simps [of P self level] raising_eq_Inr split: option.splits)
    have "same_but_grids (s3\<lparr>grids := (grids s3)[kc := (grids s3 ! kc)\<lparr>var_f := f'\<rparr>]\<rparr>) s'"
      using "1.IH" [OF True kf kc s1 s2 s3 f' rest] .
    moreover have "same_but_grids s3 (s3\<lparr>grids := (grids s3)[kc := (grids s3 ! kc)\<lparr>var_f := f'\<rparr>]\<rparr>)"
      by simp
    moreover note verbose_residual_fields [OF s1] smooth_fields [OF s2] computeResidual_fields [OF s3]
    ultimately show ?thesis by (blast intro: same_but_grids_trans)
  qed
qed

lemma bottom_solve_fields: "bottom_solve P self = Inr s' \<Longrightarrow> same_but_grids self s'"
  by (auto simp: bottom_solve_def Let_def raising_eq_Inr split: option.splits)

lemma ascent_fields: "ascent P self level = Inr s' \<Longrightarrow> same_but_grids self s'"
proof (induction P self level rule: ascent.induct)
  case (1 P self level)
  show ?case
  proof (cases "level < nlevels self")
    case False
    with "1.prems" show ?thesis by (simp add: ascent.simps [of P self level])
  next
    case True
    with "1.prems" obtain kf kc v' s2 s3 s4 where
      kf: "py_index (length (grids self)) level = Some kf" and
      kc: "py_index (length (grids self)) (level - 1) = Some kc" and
      v': "setitem (var_v (grids self ! kf)) All All
             (getitem (var_v (grids self ! kf)) All All +
              prolong P (grid (grids self ! kc)) (var_v (grids self ! kc))) = Inr v'" and
      s2: "verbose_residual (self\<lparr>grids := (grids self)[kf := (grids self ! kf)\<lparr>var_v := v'\<rparr>]\<rparr>) level = Inr s2" and
      s3: "smooth P s2 level (nsmooth s2) = Inr s3" and
      s4: "verbose_residual s3 level = Inr s4" and
      rest: "ascent P s4 (level + 1) = Inr s'"
      by (auto simp: ascent.simps [of P self level] raising_eq_Inr split: option.splits)
    have "same_but_grids s4 s'"
      using "1.IH" [OF True kf kc v' s2 s3 s4 rest] .
    moreover have "same_but_grids self (self\<lparr>grids := (grids self)[kf := (grids self ! kf)\<lparr>var_v := v'\<rparr>]\<rparr>)"
      by simp
    moreover note verbose_residual_fields [OF s2] smooth_fields [OF s3] verbose_residual_fields [OF s4]
    ultimately show ?thesis by (blast intro: same_but_grids_trans)
  qed
qed

lemma same_but_grids_maxCycles: "same_but_grids s s' \<Longrightarrow> maxCycles s' = maxCycles s"
  by (cases s; cases s') (simp add: same_but_grids_def)

lemma computeResidual_maxCycles:
  "computeResidual self level = Inr s' \<Longrightarrow> maxCycles s' = maxCycles self"
  by (blast dest: computeResidual_fields same_but_grids_maxCycles)

lemma cycle_end_maxCycles:
  assumes "cycle_end P rtol self old cycle = Inr (c, s', old')"
  shows "maxCycles s' = maxCycles self"
proof -
  from assms obtain s1 where s1: "computeResidual self (nlevels self - 1) = Inr s1"
    and s': "maxCycles s' = maxCycles s1"
    unfolding cycle_end_def raising_eq_Inr
    by (fastforce simp: converged_update_def split: if_splits)
  show ?thesis using s' computeResidual_maxCycles [OF s1] by simp
qed

lemma vcycle_fields:
  assumes "vcycle P self = Inr s'"
  shows "same_but_grids self s'"
proof -
  from assms obtain s0 s1 s2 where
    "zero_loop self 0 = Inr s0" "descent P s0 (nlevels s0 - 1) = Inr s1"
    "bottom_solve P s1 = Inr s2" "ascent P s2 1 = Inr s'"
    unfolding vcycle_def raising_eq_Inr by blast
  then have "same_but_grids self s0" "same_but_grids s0 s1" "same_but_grids s1 s2"
    "same_but_grids s2 s'"
    by (simp_all add: zero_loop_fields descent_fields bottom_solve_fields ascent_fields)
  then show ?thesis by (blast intro: same_but_grids_trans)
qed

text \<open>The loop \<open>while (not converged and cycle <= self.maxCycles)\<close>.\<close>

function solve_loop :: "patch \<Rightarrow> fl \<Rightarrow> ccMG2d \<Rightarrow> arr \<Rightarrow> int \<Rightarrow> exn + ccMG2d" where
  "solve_loop P rtol self oldSolution cycle =
     (if cycle \<le> maxCycles self
      then raising (vcycle P self) (\<lambda>s1.
           raising (cycle_end P rtol s1 oldSolution cycle) (\<lambda>(converged, s2, old').
           if converged then Inr s2 else solve_loop P rtol s2 old' (cycle + 1)))
      else Inr self)"
  by pat_completeness auto
termination
proof (relation "measure (\<lambda>(P, rtol, self, old, cycle). nat (maxCycles self + 1 - cycle))",
       goal_cases)
  case 1
  show ?case by simp
next
  case (2 P rtol self oldSolution cycle s1 x y s2 z old')
  then have "cycle_end P rtol s1 oldSolution cycle = Inr (y, z, old')" by simp
  then have "maxCycles z = maxCycles s1" by (rule cycle_end_maxCycles)
  moreover have "maxCycles s1 = maxCycles self"
    using 2 by (blast dest: vcycle_fields same_but_grids_maxCycles)
  ultimately show ?case using 2 by simp
qed

declare solve_loop.simps [simp del]

text \<open>
  \<open>solve(rtol)\<close>.  The module does not import \<open>msg\<close>, so the call \<open>msg.fail(...)\<close>
  under the initialisation check raises \<open>NameError\<close>.  \<open>oldSolution\<close> is a copy
  of the finest \<open>v\<close>, and the first cycle has number 1.
\<close>

definition solve :: "patch \<Rightarrow> ccMG2d \<Rightarrow> fl \<Rightarrow> exn + ccMG2d" where
  "solve P self rtol =
     (if initializedSolution self = 0 \<or> initializedRHS self = 0
      then Inl (NameError ''msg'')
      else raising (finest self) (\<lambda>k.
           solve_loop P rtol self (var_v (grids self ! k)) 1))"

section \<open>An instance of the mesh collaborator\<close>

text \<open>
  Modelled from the spec: the boundary kinds of \<open>BCPolicy\<close>, the full-weighting
  restriction and the piecewise-constant prolongation, which live in
  \<open>mesh.patch\<close>.  They give the parameters of the embedding one concrete
  value, on which the results below are exercised.
\<close>

definition valid_bc :: "string \<Rightarrow> bool" where
  "valid_bc k = (k \<in> set [''periodic'', ''reflect-even'', ''reflect-odd'', ''dirichlet'',
                          ''neumann'', ''outflow''])"

definition bcObject_spec :: "string \<Rightarrow> string \<Rightarrow> string \<Rightarrow> string \<Rightarrow> exn + bcObject" where
  "bcObject_spec xl xr yl yr =
     (if valid_bc xl \<and> valid_bc xr \<and> valid_bc yl \<and> valid_bc yr \<and>
         ((xl = ''periodic'') = (xr = ''periodic'')) \<and>
         ((yl = ''periodic'') = (yr = ''periodic''))
      then Inr \<lparr> xlb = xl, xrb = xr, ylb = yl, yrb = yr \<rparr>
      else Inl ConfigurationError)"

text \<open>For a ghost index on one axis: the interior index it is filled from and
  whether the sign is flipped.  An interior index is its own source.\<close>

definition bc_source :: "string \<Rightarrow> string \<Rightarrow> int \<Rightarrow> int \<Rightarrow> nat \<Rightarrow> nat \<times> bool" where
  "bc_source lo_kind hi_kind lo hi i =
     (if int i < lo then
        (if lo_kind = ''periodic'' then (nat (int i + (hi - lo + 1)), False)
         else if lo_kind = ''dirichlet'' \<or> lo_kind = ''reflect-odd''
           then (nat (2 * lo - 1 - int i), True)
         else if lo_kind = ''outflow'' then (nat lo, False)
         else (nat (2 * lo - 1 - int i), False))
      else if hi < int i then
        (if hi_kind = ''periodic'' then (nat (int i - (hi - lo + 1)), False)
         else if hi_kind = ''dirichlet'' \<or> hi_kind = ''reflect-odd''
           then (nat (2 * hi + 1 - int i), True)
         else if hi_kind = ''outflow'' then (nat hi, False)
         else (nat (2 * hi + 1 - int i), False))
      else (i, False))"

definition fillBC_spec :: "grid2d \<Rightarrow> bcObject \<Rightarrow> arr \<Rightarrow> arr" where
  "fillBC_spec g b a =
     tab (length a) (ncols a) (\<lambda>i j.
       (let (si, ni) = bc_source (xlb b) (xrb b) (ilo g) (ihi g) i;
            (sj, nj) = bc_source (ylb b) (yrb b) (jlo g) (jhi g) j
        in if ni \<noteq> nj then - (a ! si ! sj) else a ! si ! sj))"

definition restrict_spec :: "grid2d \<Rightarrow> arr \<Rightarrow> nd" where
  "restrict_spec g a =
     (let n = nat (ng g); mc = nat (nx g div 2 + 2 * ng g); nc = nat (ny g div 2 + 2 * ng g)
      in Ar mc nc (tab mc nc (\<lambda>i j.
           if n \<le> i \<and> i < mc - n \<and> n \<le> j \<and> j < nc - n
           then Fin (1 / 4) *
                  (a ! (n + 2 * (i - n)) ! (n + 2 * (j - n)) +
                   a ! (n + 2 * (i - n) + 1) ! (n + 2 * (j - n)) +
                   a ! (n + 2 * (i - n)) ! (n + 2 * (j - n) + 1) +
                   a ! (n + 2 * (i - n) + 1) ! (n + 2 * (j - n) + 1))
           else Fin 0)))"

definition prolong_spec :: "grid2d \<Rightarrow> arr \<Rightarrow> nd" where
  "prolong_spec g a =
     (let n = nat (ng g); mf = nat (2 * nx g + 2 * ng g); nf = nat (2 * ny g + 2 * ng g)
      in Ar mf nf (tab mf nf (\<lambda>i j.
           if n \<le> i \<and> i < mf - n \<and> n \<le> j \<and> j < nf - n
           then a ! (n + (i - n) div 2) ! (n + (j - n) div 2)
           else Fin 0)))"

definition patch_spec :: patch where
  "patch_spec =
     \<lparr> bcObject_new = bcObject_spec, fillBC = fillBC_spec,
       restrict = restrict_spec, prolong = prolong_spec \<rparr>"

text \<open>The solver of the unit square with periodic boundaries, \<open>alpha = 0\<close> and
  \<open>beta = -1\<close>, on a grid of 2 by 2 cells, as \<open>__init__\<close> leaves it.\<close>

definition bc_periodic :: bcObject where
  "bc_periodic = \<lparr> xlb = ''periodic'', xrb = ''periodic'', ylb = ''periodic'', yrb = ''periodic'' \<rparr>"

definition unit_grid :: "int \<Rightarrow> grid2d" where
  "unit_grid n = grid2d_new n n 1 (Fin 0) (Fin 1) (Fin 0) (Fin 1)"

definition mg_2x2 :: ccMG2d where
  "mg_2x2 =
     \<lparr> mg_nx = 2, mg_ny = 2, mg_ng = 1,
       mg_xmin = Fin 0, mg_xmax = Fin 1, mg_ymin = Fin 0, mg_ymax = Fin 1,
       alpha = Fin 0, beta = Fin (- 1),
       nsmooth = 10, maxCycles = 100, verbose = 0,
       small = Fin (1 / 10 ^ 16),
       initializedSolution = 0, initializedRHS = 0,
       nlevels = 2,
       grids = [ccData2d_new (unit_grid 1) bc_periodic, ccData2d_new (unit_grid 2) bc_periodic],
       solnGrid = unit_grid 2,
       sourceNorm = Fin 0, numCycles = 0,
       residualError = Fin (10 ^ 33), relativeError = Fin (10 ^ 33) \<rparr>"

text \<open>The same solver with a right-hand side on the finest level, and the
  solution array after one smoothing pass from zero.\<close>

definition demo_f :: arr where
  "demo_f = [[Fin 0, Fin 0, Fin 0, Fin 0],
             [Fin 0, Fin 1, Fin (- 1), Fin 0],
             [Fin 0, Fin (- 1), Fin 1, Fin 0],
             [Fin 0, Fin 0, Fin 0, Fin 0]]"

definition mg_demo :: ccMG2d where
  "mg_demo = mg_2x2\<lparr>grids := (grids mg_2x2)[1 := (grids mg_2x2 ! 1)\<lparr>var_f := demo_f\<rparr>]\<rparr>"

definition demo_v :: arr where
  "demo_v = [[Fin (- (1 / 16)), Fin 0, Fin (- (1 / 16)), Fin 0],
             [Fin 0, Fin (- (1 / 16)), Fin 0, Fin (- (1 / 16))],
             [Fin (- (1 / 16)), Fin 0, Fin (- (1 / 16)), Fin 0],
             [Fin 0, Fin (- (1 / 16)), Fin 0, Fin (- (1 / 16))]]"

section \<open>Histories of calls\<close>

text \<open>The calls a client makes on a solver object after it has constructed
  it; an exception ends the history.\<close>

datatype call =
    InitSolution nd
  | InitZeros
  | InitRHS nd
  | Smooth int int
  | ComputeResidual int
  | Solve fl

fun do_call :: "patch \<Rightarrow> ccMG2d \<Rightarrow> call \<Rightarrow> exn + ccMG2d" where
  "do_call P self (InitSolution data) = initSolution self data"
| "do_call P self InitZeros = initZeros self"
| "do_call P self (InitRHS data) = initRHS self data"
| "do_call P self (Smooth level n) = smooth P self level n"
| "do_call P self (ComputeResidual level) = computeResidual self level"
| "do_call P self (Solve rtol) = solve P self rtol"

fun run :: "patch \<Rightarrow> ccMG2d \<Rightarrow> call list \<Rightarrow> exn + ccMG2d" where
  "run P self [] = Inr self"
| "run P self (c # cs) = raising (do_call P self c) (\<lambda>s. run P s cs)"

fun sets_solution :: "call \<Rightarrow> bool" where
  "sets_solution (InitSolution data) = True"
| "sets_solution InitZeros = True"
| "sets_solution _ = False"

fun sets_rhs :: "call \<Rightarrow> bool" where
  "sets_rhs (InitRHS data) = True"
| "sets_rhs _ = False"

text \<open>Two states of the 2 by 2 solver on level 1.  In \<open>mg_solved\<close> the solution
  is the array that one pass of the relaxation produces from zero for \<open>demo_f\<close>.
  In \<open>mg_singular\<close> the coefficients are \<open>alpha = 16\<close> and \<open>beta = -1\<close>, the solution
  is 1 and the right-hand side is 16 in every cell.\<close>

definition const_arr :: "nat \<Rightarrow> nat \<Rightarrow> fl \<Rightarrow> arr" where
  "const_arr m n c = tab m n (\<lambda>i j. c)"



text \<open>The same solver with one smoothing pass per call and given arrays: \<open>v\<close> and
  \<open>f\<close> of level 0, and \<open>v\<close>, \<open>f\<close> and \<open>r\<close> of level 1.  The arrays \<open>cyc_...\<close> are the
  ones a V-cycle goes through from \<open>v = 0\<close> and \<open>f = 1\<close> on level 1.\<close>

definition mg_two :: "arr \<Rightarrow> arr \<Rightarrow> arr \<Rightarrow> arr \<Rightarrow> arr \<Rightarrow> ccMG2d" where
  "mg_two v0 f0 v1 f1 r1 =
     mg_2x2\<lparr>nsmooth := 1,
       grids := [(ccData2d_new (unit_grid 1) bc_periodic)\<lparr>var_v := v0, var_f := f0\<rparr>,
                 (ccData2d_new (unit_grid 2) bc_periodic)
                   \<lparr>var_v := v1, var_f := f1, var_r := r1\<rparr>]\<rparr>"

definition cyc_v1 :: arr where
  "cyc_v1 = [[Fin (- (1 / 16)), Fin (- (1 / 8)), Fin (- (1 / 16)), Fin (- (1 / 8))],
             [Fin (- (1 / 8)), Fin (- (1 / 16)), Fin (- (1 / 8)), Fin (- (1 / 16))],
             [Fin (- (1 / 16)), Fin (- (1 / 8)), Fin (- (1 / 16)), Fin (- (1 / 8))],
             [Fin (- (1 / 8)), Fin (- (1 / 16)), Fin (- (1 / 8)), Fin (- (1 / 16))]]"

definition cyc_r1 :: arr where
  "cyc_r1 = [[Fin 0, Fin 0, Fin 0, Fin 0], [Fin 0, Fin 2, Fin 0, Fin 0],
             [Fin 0, Fin 0, Fin 2, Fin 0], [Fin 0, Fin 0, Fin 0, Fin 0]]"

definition cyc_f0 :: arr where
  "cyc_f0 = [[Fin 0, Fin 0, Fin 0], [Fin 0, Fin 1, Fin 0], [Fin 0, Fin 0, Fin 0]]"

definition cyc_vc :: arr where
  "cyc_vc = [[Fin (- (1 / 16)), Fin (- (1 / 8)), Fin (- (1 / 16)), Fin (- (1 / 8))],
             [Fin (- (1 / 8)), Fin (- (3 / 16)), Fin (- (1 / 4)), Fin (- (1 / 16))],
             [Fin (- (1 / 16)), Fin (- (1 / 4)), Fin (- (3 / 16)), Fin (- (1 / 8))],
             [Fin (- (1 / 8)), Fin (- (1 / 16)), Fin (- (1 / 8)), Fin (- (1 / 16))]]"

definition cyc_v2 :: arr where
  "cyc_v2 = [[Fin (- (5 / 16)), Fin (- (3 / 8)), Fin (- (5 / 16)), Fin (- (3 / 8))],
             [Fin (- (3 / 8)), Fin (- (5 / 16)), Fin (- (3 / 8)), Fin (- (5 / 16))],
             [Fin (- (5 / 16)), Fin (- (3 / 8)), Fin (- (5 / 16)), Fin (- (3 / 8))],
             [Fin (- (3 / 8)), Fin (- (5 / 16)), Fin (- (3 / 8)), Fin (- (5 / 16))]]"

section \<open>Red-black relaxation, cell by cell\<close>

text \<open>
  The relaxation as the design states it, used to express what \<open>smooth\<close>
  computes.  A grid is usable when it has at least one interior cell and at
  least one ghost cell on every side, and an array belongs to a grid when it
  has the shape \<open>qx\<close> by \<open>qy\<close>.
\<close>

definition rect :: "nat \<Rightarrow> nat \<Rightarrow> arr \<Rightarrow> bool" where
  "rect m n a = (length a = m \<and> (\<forall>row \<in> set a. length row = n))"

definition grid_ok :: "grid2d \<Rightarrow> bool" where
  "grid_ok g = (1 \<le> ilo g \<and> ilo g \<le> ihi g \<and> ihi g + 2 \<le> qx g \<and>
                1 \<le> jlo g \<and> jlo g \<le> jhi g \<and> jhi g + 2 \<le> qy g)"

definition grid_shaped :: "grid2d \<Rightarrow> arr \<Rightarrow> bool" where
  "grid_shaped g a = rect (nat (qx g)) (nat (qy g)) a"

text \<open>The relaxed value of cell \<open>(i, j)\<close>.\<close>

definition relaxed :: "fl \<Rightarrow> fl \<Rightarrow> fl \<Rightarrow> arr \<Rightarrow> arr \<Rightarrow> nat \<Rightarrow> nat \<Rightarrow> fl" where
  "relaxed \<alpha> cx cy f v i j =
     (f ! i ! j + cx * (v ! (i + 1) ! j + v ! (i - 1) ! j)
                + cy * (v ! i ! (j + 1) + v ! i ! (j - 1))) /
     (\<alpha> + Fin 2 * cx + Fin 2 * cy)"

text \<open>The interior cells whose offsets from \<open>ilo\<close> and \<open>jlo\<close> have the parities
  \<open>p\<close> and \<open>q\<close> (0 even, 1 odd), and the update of exactly these cells from the
  values before the update.\<close>

definition in_subgrid :: "grid2d \<Rightarrow> nat \<Rightarrow> nat \<Rightarrow> nat \<Rightarrow> nat \<Rightarrow> bool" where
  "in_subgrid g p q i j =
     (ilo g \<le> int i \<and> int i \<le> ihi g \<and> jlo g \<le> int j \<and> int j \<le> jhi g \<and>
      (int i - ilo g) mod 2 = int p \<and> (int j - jlo g) mod 2 = int q)"

definition sweep :: "nat \<Rightarrow> nat \<Rightarrow> fl \<Rightarrow> fl \<Rightarrow> fl \<Rightarrow> grid2d \<Rightarrow> arr \<Rightarrow> arr \<Rightarrow> arr" where
  "sweep p q \<alpha> cx cy g f v =
     tab (length v) (ncols v)
       (\<lambda>i j. if in_subgrid g p q i j then relaxed \<alpha> cx cy f v i j else v ! i ! j)"

text \<open>One pass: the sub-sweeps (even, even), (odd, odd), a ghost fill, the
  sub-sweeps (odd, even), (even, odd), a ghost fill.\<close>

definition rb_pass :: "(arr \<Rightarrow> arr) \<Rightarrow> fl \<Rightarrow> fl \<Rightarrow> fl \<Rightarrow> grid2d \<Rightarrow> arr \<Rightarrow> arr \<Rightarrow> arr" where
  "rb_pass fill \<alpha> cx cy g f v =
     fill (sweep 0 1 \<alpha> cx cy g f
       (sweep 1 0 \<alpha> cx cy g f
          (fill (sweep 1 1 \<alpha> cx cy g f
             (sweep 0 0 \<alpha> cx cy g f v)))))"

definition shape_preserving :: "(arr \<Rightarrow> arr) \<Rightarrow> grid2d \<Rightarrow> bool" where
  "shape_preserving fill g = (\<forall>a. grid_shaped g a \<longrightarrow> grid_shaped g (fill a))"

text \<open>The interior cells of a grid, and the residual \<open>f - alpha v + beta lap v\<close>
  of the discrete equation at a cell, with the five-point Laplacian.  The
  residual array holds the residual at the interior cells and keeps the other
  cells of \<open>r\<close>.\<close>

definition interior :: "grid2d \<Rightarrow> nat \<Rightarrow> nat \<Rightarrow> bool" where
  "interior g i j =
     (ilo g \<le> int i \<and> int i \<le> ihi g \<and> jlo g \<le> int j \<and> int j \<le> jhi g)"

definition residual_at :: "fl \<Rightarrow> fl \<Rightarrow> grid2d \<Rightarrow> arr \<Rightarrow> arr \<Rightarrow> nat \<Rightarrow> nat \<Rightarrow> fl" where
  "residual_at \<alpha> \<beta> g f v i j =
     f ! i ! j - \<alpha> * v ! i ! j +
     \<beta> * ((v ! (i - 1) ! j + v ! (i + 1) ! j - Fin 2 * v ! i ! j) / (dx g * dx g) +
          (v ! i ! (j - 1) + v ! i ! (j + 1) - Fin 2 * v ! i ! j) / (dy g * dy g))"

definition residual_array :: "fl \<Rightarrow> fl \<Rightarrow> grid2d \<Rightarrow> arr \<Rightarrow> arr \<Rightarrow> arr \<Rightarrow> arr" where
  "residual_array \<alpha> \<beta> g f v r =
     tab (length r) (ncols r)
       (\<lambda>i j. if interior g i j then residual_at \<alpha> \<beta> g f v i j else r ! i ! j)"

text \<open>The cell \<open>i\<close> lies among the \<open>n\<close> cells from \<open>s\<close> on.\<close>

definition in_range :: "nat \<Rightarrow> nat \<Rightarrow> nat \<Rightarrow> bool" where
  "in_range s e i = (s \<le> i \<and> i < e)"

section \<open>The steps of a V-cycle\<close>

text \<open>A sequence of steps, each of which may raise, run over a list of levels.\<close>

fun fold_raising :: "('a \<Rightarrow> 's \<Rightarrow> exn + 's) \<Rightarrow> 'a list \<Rightarrow> 's \<Rightarrow> exn + 's" where
  "fold_raising step [] s = Inr s"
| "fold_raising step (x # xs) s = raising (step x s) (fold_raising step xs)"

text \<open>The solver with \<open>v\<close> set to zero on the levels from \<open>i\<close> on, the finest level
  excepted; from level 0 on this is every level but the finest.\<close>

definition zero_from :: "nat \<Rightarrow> ccMG2d \<Rightarrow> ccMG2d" where
  "zero_from i self =
     self\<lparr>grids :=
       map (\<lambda>k. if i \<le> k \<and> k + 1 < length (grids self)
                then (grids self ! k)\<lparr>var_v := zero (var_v (grids self ! k))\<rparr>
                else grids self ! k)
         [0..<length (grids self)]\<rparr>"

definition zero_coarse :: "ccMG2d \<Rightarrow> ccMG2d" where
  "zero_coarse self = zero_from 0 self"

text \<open>On level \<open>k\<close> of the descent: smooth \<open>nsmooth\<close> passes, compute the residual and
  store its restriction as the right-hand side of level \<open>k - 1\<close>.  On level \<open>k\<close>
  of the ascent: add the prolonged \<open>v\<close> of level \<open>k - 1\<close> to \<open>v\<close> and smooth \<open>nsmooth\<close>
  passes.  When \<open>verbose\<close> is set the residual is also computed where its norm is
  printed.\<close>

definition descent_step :: "patch \<Rightarrow> nat \<Rightarrow> ccMG2d \<Rightarrow> exn + ccMG2d" where
  "descent_step P k self =
     raising (verbose_residual self (int k)) (\<lambda>s1.
     raising (smooth P s1 (int k) (nsmooth s1)) (\<lambda>s2.
     raising (computeResidual s2 (int k)) (\<lambda>s3.
     raising (setitem (var_f (grids s3 ! (k - 1))) All All
                (restrict P (grid (grids s3 ! k)) (var_r (grids s3 ! k)))) (\<lambda>f'.
     Inr (s3\<lparr>grids := (grids s3)[k - 1 := (grids s3 ! (k - 1))\<lparr>var_f := f'\<rparr>]\<rparr>)))))"

definition ascent_step :: "patch \<Rightarrow> nat \<Rightarrow> ccMG2d \<Rightarrow> exn + ccMG2d" where
  "ascent_step P k self =
     raising (setitem (var_v (grids self ! k)) All All
                (getitem (var_v (grids self ! k)) All All +
                 prolong P (grid (grids self ! (k - 1))) (var_v (grids self ! (k - 1))))) (\<lambda>v'.
     raising (verbose_residual
                (self\<lparr>grids := (grids self)[k := (grids self ! k)\<lparr>var_v := v'\<rparr>]\<rparr>) (int k)) (\<lambda>s2.
     raising (smooth P s2 (int k) (nsmooth s2)) (\<lambda>s3.
     verbose_residual s3 (int k))))"

text \<open>The bottom solve before the ghost fill: the cells of row \<open>ilo\<close> of \<open>v\<close> become
  \<open>-0.125 f dx dx\<close>.\<close>

definition bottom_row :: "grid2d \<Rightarrow> arr \<Rightarrow> arr \<Rightarrow> arr" where
  "bottom_row g f v =
     v[nat (ilo g) := map (\<lambda>x. Fin (- 0.125) * x * dx g * dx g) (f ! nat (ilo g))]"

section \<open>Facts about arrays and slices\<close>

lemma tab_length [simp]: "length (tab m n g) = m"
  by (simp add: tab_def)

lemma tab_nth_row [simp]: "i < m \<Longrightarrow> tab m n g ! i = map (g i) [0..<n]"
  by (simp add: tab_def)

lemma tab_nth [simp]: "i < m \<Longrightarrow> j < n \<Longrightarrow> tab m n g ! i ! j = g i j"
  by (simp add: tab_def)

lemma tab_cong: "(\<And>i j. i < m \<Longrightarrow> j < n \<Longrightarrow> g i j = g' i j) \<Longrightarrow> tab m n g = tab m n g'"
  by (simp add: tab_def)


lemma rect_tab [simp]: "rect m n (tab m n g)"
  by (auto simp: rect_def tab_def)


lemma filter_step2:
  "filter (\<lambda>i. (i - s) mod 2 = 0) [s..<s + d] = map (\<lambda>k. s + 2 * k) [0..<(d + 1) div 2]"
proof (induction d)
  case 0
  show ?case by simp
next
  case (Suc d)
  show ?case
  proof (cases "even d")
    case True
    then obtain c where c: "d = 2 * c" by (auto elim: evenE)
    have "(Suc d + 1) div 2 = Suc ((d + 1) div 2)" using c by simp
    with Suc c show ?thesis by simp
  next
    case False
    then obtain c where c: "d = 2 * c + 1" by (auto elim: oddE)
    have "(Suc d + 1) div 2 = (d + 1) div 2" using c by simp
    moreover have "(s + d - s) mod 2 \<noteq> 0" using c by simp
    ultimately show ?thesis using Suc by simp
  qed
qed

lemma idxs_step2:
  assumes "0 \<le> lo" "lo \<le> hi" "hi \<le> int len"
  shows "idxs len (Sl lo hi 2) = map (\<lambda>k. nat lo + 2 * k) [0..<(nat (hi - lo) + 1) div 2]"
proof -
  have s: "norm_bound len lo = nat lo" and e: "norm_bound len hi = nat lo + nat (hi - lo)"
    using assms by (auto simp: norm_bound_def)
  show ?thesis
    unfolding idxs.simps Let_def s e by (rule filter_step2)
qed

lemma put_row_length [simp]: "length (put_row row js xs) = length row"
  by (induction row js xs rule: put_row.induct) auto

lemma put_row_nth_out: "j \<notin> set js \<Longrightarrow> put_row row js xs ! j = row ! j"
  by (induction row js xs rule: put_row.induct) auto

lemma put_row_nth_in:
  "distinct js \<Longrightarrow> length xs = length js \<Longrightarrow> l < length js \<Longrightarrow> js ! l < length row
   \<Longrightarrow> put_row row js xs ! (js ! l) = xs ! l"
proof (induction row js xs arbitrary: l rule: put_row.induct)
  case (1 row j js x xs)
  show ?case
  proof (cases l)
    case 0
    with 1 show ?thesis by (simp add: put_row_nth_out)
  next
    case (Suc l')
    with 1 show ?thesis by simp
  qed
qed auto

lemma put_length [simp]: "length (put a is js B) = length a"
  by (induction a "is" js B rule: put.induct) auto

lemma put_nth_out: "i \<notin> set is \<Longrightarrow> put a is js B ! i = a ! i"
  by (induction a "is" js B rule: put.induct) auto

lemma put_nth_in:
  "distinct is \<Longrightarrow> length B = length is \<Longrightarrow> k < length is \<Longrightarrow> is ! k < length a
   \<Longrightarrow> put a is js B ! (is ! k) = put_row (a ! (is ! k)) js (B ! k)"
proof (induction a "is" js B arbitrary: k rule: put.induct)
  case (1 a i "is" js row rows)
  show ?case
  proof (cases k)
    case 0
    with 1 show ?thesis by (simp add: put_nth_out)
  next
    case (Suc k')
    with 1 have "i \<noteq> is ! k'" by auto
    with 1 Suc show ?thesis by simp
  qed
qed auto

text \<open>Index lists with stride 2.\<close>

definition stride2 :: "nat \<Rightarrow> nat \<Rightarrow> nat list" where
  "stride2 s m = map (\<lambda>k. s + 2 * k) [0..<m]"

lemma stride2_length [simp]: "length (stride2 s m) = m"
  by (simp add: stride2_def)

lemma stride2_nth [simp]: "k < m \<Longrightarrow> stride2 s m ! k = s + 2 * k"
  by (simp add: stride2_def)

lemma stride2_distinct [simp]: "distinct (stride2 s m)"
  by (simp add: stride2_def distinct_map inj_on_def)

lemma stride2_mem: "i \<in> set (stride2 s m) \<longleftrightarrow> s \<le> i \<and> i < s + 2 * m \<and> (i - s) mod 2 = 0"
proof
  assume "i \<in> set (stride2 s m)"
  then obtain k where "k < m" "i = s + 2 * k" by (auto simp: stride2_def)
  then show "s \<le> i \<and> i < s + 2 * m \<and> (i - s) mod 2 = 0" by simp
next
  assume a: "s \<le> i \<and> i < s + 2 * m \<and> (i - s) mod 2 = 0"
  then have "i = s + 2 * ((i - s) div 2)" "(i - s) div 2 < m" by presburger+
  then show "i \<in> set (stride2 s m)" unfolding stride2_def by (metis (no_types, lifting) atLeast0LessThan image_eqI lessThan_iff list.set_map set_upt)
qed

definition on_stride :: "nat \<Rightarrow> nat \<Rightarrow> nat \<Rightarrow> bool" where
  "on_stride s m i = (s \<le> i \<and> i < s + 2 * m \<and> (i - s) mod 2 = 0)"

lemma put_stride2:
  assumes a: "rect M N a"
    and mi: "m = 0 \<or> s + 2 * (m - 1) < M" and nj: "n = 0 \<or> t + 2 * (n - 1) < N"
  shows "put a (stride2 s m) (stride2 t n) (tab m n g) =
         tab M N (\<lambda>i j. if on_stride s m i \<and> on_stride t n j
                         then g ((i - s) div 2) ((j - t) div 2) else a ! i ! j)"
proof (rule nth_equalityI)
  show "length (put a (stride2 s m) (stride2 t n) (tab m n g)) = length (tab M N (\<lambda>i j. if on_stride s m i \<and> on_stride t n j
                         then g ((i - s) div 2) ((j - t) div 2) else a ! i ! j))"
    using a by (simp add: rect_def)
next
  fix i assume "i < length (put a (stride2 s m) (stride2 t n) (tab m n g))"
  then have iM: "i < M" using a by (simp add: rect_def)
  have rowlen: "length (a ! i) = N" using a iM by (simp add: rect_def)
  show "put a (stride2 s m) (stride2 t n) (tab m n g) ! i =
        tab M N (\<lambda>i j. if on_stride s m i \<and> on_stride t n j
                         then g ((i - s) div 2) ((j - t) div 2) else a ! i ! j) ! i"
  proof (cases "on_stride s m i")
    case False
    then have "i \<notin> set (stride2 s m)" by (simp add: stride2_mem on_stride_def)
    then have "put a (stride2 s m) (stride2 t n) (tab m n g) ! i = a ! i"
      by (rule put_nth_out)
    also have "a ! i = map (\<lambda>j. a ! i ! j) [0..<N]"
      using rowlen by (auto intro!: nth_equalityI)
    finally show ?thesis using False iM by simp
  next
    case True
    define k where "k = (i - s) div 2"
    have k: "k < m" "i = s + 2 * k" using True unfolding on_stride_def k_def by presburger+
    have "put a (stride2 s m) (stride2 t n) (tab m n g) ! (stride2 s m ! k)
          = put_row (a ! (stride2 s m ! k)) (stride2 t n) (tab m n g ! k)"
      using k a iM by (intro put_nth_in) (simp_all add: rect_def)
    then have eq: "put a (stride2 s m) (stride2 t n) (tab m n g) ! i
          = put_row (a ! i) (stride2 t n) (map (g k) [0..<n])"
      using k by simp
    show ?thesis unfolding eq
    proof (rule nth_equalityI)
      show "length (put_row (a ! i) (stride2 t n) (map (g k) [0..<n])) = length (tab M N (\<lambda>i j. if on_stride s m i \<and> on_stride t n j
                         then g ((i - s) div 2) ((j - t) div 2) else a ! i ! j) ! i)"
        using iM rowlen by simp
    next
      fix j assume "j < length (put_row (a ! i) (stride2 t n) (map (g k) [0..<n]))"
      then have jN: "j < N" using rowlen by simp
      show "put_row (a ! i) (stride2 t n) (map (g k) [0..<n]) ! j =
            tab M N (\<lambda>i j. if on_stride s m i \<and> on_stride t n j
                         then g ((i - s) div 2) ((j - t) div 2) else a ! i ! j) ! i ! j"
      proof (cases "on_stride t n j")
        case False
        then have "j \<notin> set (stride2 t n)" by (simp add: stride2_mem on_stride_def)
        then show ?thesis using False iM jN by (simp add: put_row_nth_out)
      next
        case Tj: True
        define l where "l = (j - t) div 2"
        have l: "l < n" "j = t + 2 * l" using Tj unfolding on_stride_def l_def by presburger+
        have "put_row (a ! i) (stride2 t n) (map (g k) [0..<n]) ! (stride2 t n ! l)
              = map (g k) [0..<n] ! l"
          using l jN rowlen by (intro put_row_nth_in) simp_all
        then have "put_row (a ! i) (stride2 t n) (map (g k) [0..<n]) ! j = g k l"
          using l by simp
        then show ?thesis using True Tj iM jN by (simp add: k_def [symmetric] l_def [symmetric])
      qed
    qed
  qed
qed

lemma rect_ncols: "rect M N a \<Longrightarrow> 0 < M \<Longrightarrow> ncols a = N"
  by (cases a) (auto simp: rect_def ncols_def)

lemma rect_length: "rect M N a \<Longrightarrow> length a = M"
  by (simp add: rect_def)

lemma idxs_stride2:
  assumes "0 \<le> lo" "lo \<le> hi" "hi \<le> int len"
  shows "idxs len (Sl lo hi 2) = stride2 (nat lo) ((nat (hi - lo) + 1) div 2)"
  unfolding stride2_def using assms by (rule idxs_step2)

lemma map_map_tab:
  "map (\<lambda>i. map (\<lambda>j. a ! i ! j) (stride2 t n)) (stride2 s m)
   = tab m n (\<lambda>k l. a ! (s + 2 * k) ! (t + 2 * l))"
  by (simp add: tab_def stride2_def comp_def)

lemma getitem_stride2:
  assumes "rect M N a" "0 < M"
    and "0 \<le> lo" "lo \<le> hi" "hi \<le> int M" "0 \<le> lo'" "lo' \<le> hi'" "hi' \<le> int N"
  shows "getitem a (Sl lo hi 2) (Sl lo' hi' 2) =
         Ar ((nat (hi - lo) + 1) div 2) ((nat (hi' - lo') + 1) div 2)
            (tab ((nat (hi - lo) + 1) div 2) ((nat (hi' - lo') + 1) div 2)
               (\<lambda>k l. a ! (nat lo + 2 * k) ! (nat lo' + 2 * l)))"
proof -
  have i: "idxs (length a) (Sl lo hi 2) = stride2 (nat lo) ((nat (hi - lo) + 1) div 2)"
    using assms by (intro idxs_stride2) (simp_all add: rect_length)
  have j: "idxs (ncols a) (Sl lo' hi' 2) = stride2 (nat lo') ((nat (hi' - lo') + 1) div 2)"
    using assms by (intro idxs_stride2) (simp_all add: rect_ncols)
  show ?thesis
    unfolding getitem_def Let_def i j by (simp add: map_map_tab)
qed

lemma bidx_lt [simp]: "i < m \<Longrightarrow> bidx m i = i"
  by (simp add: bidx_def)

lemma bdim_same [simp]: "bdim m m = m"
  by (simp add: bdim_def)

lemma bcompat_same [simp]: "bcompat m m"
  by (simp add: bcompat_def)

lemma Ar_plus_Ar:
  "Ar m n (tab m n g) + Ar m n (tab m n g') = Ar m n (tab m n (\<lambda>i j. g i j + g' i j))"
  by (auto simp: plus_nd_def intro!: tab_cong)

lemma Sc_times_Ar:
  "Sc c * Ar m n (tab m n g) = Ar m n (tab m n (\<lambda>i j. c * g i j))"
  by (auto simp: times_nd_def intro!: tab_cong)

lemma Ar_div_Sc:
  "Ar m n (tab m n g) / Sc c = Ar m n (tab m n (\<lambda>i j. g i j / c))"
  by (auto simp: divide_nd_def intro!: tab_cong)

lemma bcast_to_same:
  "bcast_to m n (Ar m n (tab m n g)) = Inr (tab m n g)"
  by (auto intro!: tab_cong)

definition relax_stmt ::
  "fl \<Rightarrow> fl \<Rightarrow> fl \<Rightarrow> arr \<Rightarrow> arr \<Rightarrow> int \<Rightarrow> int \<Rightarrow> int \<Rightarrow> int \<Rightarrow> exn + arr" where
  "relax_stmt d cx cy f v s e t u =
     setitem v (Sl s e 2) (Sl t u 2)
       ((getitem f (Sl s e 2) (Sl t u 2) +
         Sc cx * (getitem v (Sl (s + 1) (e + 1) 2) (Sl t u 2) +
                  getitem v (Sl (s - 1) (e - 1) 2) (Sl t u 2)) +
         Sc cy * (getitem v (Sl s e 2) (Sl (t + 1) (u + 1) 2) +
                  getitem v (Sl s e 2) (Sl (t - 1) (u - 1) 2))) /
        Sc d)"

definition stencil :: "fl \<Rightarrow> fl \<Rightarrow> fl \<Rightarrow> arr \<Rightarrow> arr \<Rightarrow> nat \<Rightarrow> nat \<Rightarrow> fl" where
  "stencil d cx cy f v i j =
     (f ! i ! j + cx * (v ! (i + 1) ! j + v ! (i - 1) ! j)
                + cy * (v ! i ! (j + 1) + v ! i ! (j - 1))) / d"

lemma on_stride_div: "on_stride s m i \<Longrightarrow> s + 2 * ((i - s) div 2) = i"
  unfolding on_stride_def by presburger

lemma relax_stmt_eq:
  assumes v: "rect M N v" and f: "rect M N f"
    and s: "1 \<le> s" "s \<le> e" "e + 1 \<le> int M"
    and t: "1 \<le> t" "t \<le> u" "u + 1 \<le> int N"
  shows "relax_stmt d cx cy f v s e t u =
         Inr (tab M N (\<lambda>i j.
                if on_stride (nat s) ((nat (e - s) + 1) div 2) i \<and>
                   on_stride (nat t) ((nat (u - t) + 1) div 2) j
                then stencil d cx cy f v i j else v ! i ! j))"
proof -
  define m where "m = (nat (e - s) + 1) div 2"
  define n where "n = (nat (u - t) + 1) div 2"
  have M: "0 < M" using s by linarith
  have m1: "(nat (e + 1 - (s + 1)) + 1) div 2 = m" "(nat (e - 1 - (s - 1)) + 1) div 2 = m"
    by (simp_all add: m_def)
  have n1: "(nat (u + 1 - (t + 1)) + 1) div 2 = n" "(nat (u - 1 - (t - 1)) + 1) div 2 = n"
    by (simp_all add: n_def)
  have gf: "getitem f (Sl s e 2) (Sl t u 2) =
            Ar m n (tab m n (\<lambda>k l. f ! (nat s + 2 * k) ! (nat t + 2 * l)))"
    using getitem_stride2 [OF f M, of s e t u] s t by (simp add: m_def n_def)
  have gE: "getitem v (Sl (s + 1) (e + 1) 2) (Sl t u 2) =
            Ar m n (tab m n (\<lambda>k l. v ! (nat (s + 1) + 2 * k) ! (nat t + 2 * l)))"
    using getitem_stride2 [OF v M, of "s + 1" "e + 1" t u] s t by (simp add: m_def n_def)
  have gW: "getitem v (Sl (s - 1) (e - 1) 2) (Sl t u 2) =
            Ar m n (tab m n (\<lambda>k l. v ! (nat (s - 1) + 2 * k) ! (nat t + 2 * l)))"
    using getitem_stride2 [OF v M, of "s - 1" "e - 1" t u] s t by (simp add: m_def n_def)
  have gN: "getitem v (Sl s e 2) (Sl (t + 1) (u + 1) 2) =
            Ar m n (tab m n (\<lambda>k l. v ! (nat s + 2 * k) ! (nat (t + 1) + 2 * l)))"
    using getitem_stride2 [OF v M, of s e "t + 1" "u + 1"] s t by (simp add: m_def n_def)
  have gS: "getitem v (Sl s e 2) (Sl (t - 1) (u - 1) 2) =
            Ar m n (tab m n (\<lambda>k l. v ! (nat s + 2 * k) ! (nat (t - 1) + 2 * l)))"
    using getitem_stride2 [OF v M, of s e "t - 1" "u - 1"] s t by (simp add: m_def n_def)
  define G where "G = (\<lambda>k l.
      (f ! (nat s + 2 * k) ! (nat t + 2 * l) +
       cx * (v ! (nat (s + 1) + 2 * k) ! (nat t + 2 * l) +
             v ! (nat (s - 1) + 2 * k) ! (nat t + 2 * l)) +
       cy * (v ! (nat s + 2 * k) ! (nat (t + 1) + 2 * l) +
             v ! (nat s + 2 * k) ! (nat (t - 1) + 2 * l))) / d)"
  have rhs: "(getitem f (Sl s e 2) (Sl t u 2) +
         Sc cx * (getitem v (Sl (s + 1) (e + 1) 2) (Sl t u 2) +
                  getitem v (Sl (s - 1) (e - 1) 2) (Sl t u 2)) +
         Sc cy * (getitem v (Sl s e 2) (Sl (t + 1) (u + 1) 2) +
                  getitem v (Sl s e 2) (Sl (t - 1) (u - 1) 2))) /
        Sc d = Ar m n (tab m n G)"
    unfolding gf gE gW gN gS G_def
    by (simp only: Ar_plus_Ar Sc_times_Ar Ar_div_Sc)
  have i: "idxs (length v) (Sl s e 2) = stride2 (nat s) m"
    unfolding m_def using v s by (intro idxs_stride2) (simp_all add: rect_length)
  have j: "idxs (ncols v) (Sl t u 2) = stride2 (nat t) n"
    unfolding n_def using v M t by (intro idxs_stride2) (simp_all add: rect_ncols)
  have "2 * m \<le> nat (e - s) + 1" unfolding m_def by simp
  then have mb: "m = 0 \<or> nat s + 2 * (m - 1) < M"
    using s by arith
  have "2 * n \<le> nat (u - t) + 1" unfolding n_def by simp
  then have nb: "n = 0 \<or> nat t + 2 * (n - 1) < N"
    using t by arith
  have "relax_stmt d cx cy f v s e t u = Inr (put v (stride2 (nat s) m) (stride2 (nat t) n) (tab m n G))"
    unfolding relax_stmt_def rhs setitem_def Let_def i j
    by (simp only: stride2_length bcast_to_same sum.case)
  also have "put v (stride2 (nat s) m) (stride2 (nat t) n) (tab m n G) =
     tab M N (\<lambda>i j. if on_stride (nat s) m i \<and> on_stride (nat t) n j
                     then G ((i - nat s) div 2) ((j - nat t) div 2) else v ! i ! j)"
    using v mb nb by (rule put_stride2)
  also have "\<dots> = tab M N (\<lambda>i j. if on_stride (nat s) m i \<and> on_stride (nat t) n j
                     then stencil d cx cy f v i j else v ! i ! j)"
  proof (rule tab_cong)
    fix i j assume "i < M" "j < N"
    show "(if on_stride (nat s) m i \<and> on_stride (nat t) n j
           then G ((i - nat s) div 2) ((j - nat t) div 2) else v ! i ! j) =
          (if on_stride (nat s) m i \<and> on_stride (nat t) n j
           then stencil d cx cy f v i j else v ! i ! j)"
    proof (cases "on_stride (nat s) m i \<and> on_stride (nat t) n j")
      case False
      then show ?thesis by auto
    next
      case True
      from True have a: "nat s + 2 * ((i - nat s) div 2) = i"
        and b: "nat t + 2 * ((j - nat t) div 2) = j"
        by (auto simp: on_stride_div)
      have a1: "nat (s + 1) + 2 * ((i - nat s) div 2) = i + 1"
        and a2: "nat (s - 1) + 2 * ((i - nat s) div 2) = i - 1"
        using a s by linarith+
      have b1: "nat (t + 1) + 2 * ((j - nat t) div 2) = j + 1"
        and b2: "nat (t - 1) + 2 * ((j - nat t) div 2) = j - 1"
        using b t by linarith+
      show ?thesis using True by (simp add: G_def stencil_def a b a1 a2 b1 b2)
    qed
  qed
  finally show ?thesis unfolding m_def n_def .
qed


section \<open>Facts about smooth\<close>

lemma stride_even_aux:
  "(c < 2 * ((d + 2) div 2) \<and> c mod 2 = 0) = (c \<le> d \<and> c mod 2 = (0::nat))"
  by presburger

lemma stride_odd_aux:
  "(c < 2 * ((d + 1) div 2) \<and> c mod 2 = 0) = (c + 1 \<le> d \<and> (c + 1) mod 2 = (1::nat))"
  by presburger

lemma int_diff_even: "(int (a + c) - int a) mod 2 = 0 \<longleftrightarrow> c mod 2 = 0"
proof -
  have "int (a + c) - int a = int c" by simp
  moreover have "int c mod 2 = int (c mod 2)" by (simp add: zmod_int)
  ultimately show ?thesis by simp
qed

lemma int_diff_odd: "(int (a + 1 + c) - int a) mod 2 = 1 \<longleftrightarrow> (c + 1) mod 2 = 1"
proof -
  have "int (a + 1 + c) - int a = int (c + 1)" by simp
  moreover have "int (c + 1) mod 2 = int ((c + 1) mod 2)" by (simp add: zmod_int)
  ultimately show ?thesis by (simp only: of_nat_eq_1_iff)
qed

lemma on_stride_even:
  assumes "0 \<le> lo" "lo \<le> hi"
  shows "on_stride (nat lo) ((nat (hi + 1 - lo) + 1) div 2) i \<longleftrightarrow>
         lo \<le> int i \<and> int i \<le> hi \<and> (int i - lo) mod 2 = 0"
proof -
  define a where "a = nat lo"
  define d where "d = nat (hi - lo)"
  have a: "lo = int a" and d: "hi = int (a + d)" using assms by (simp_all add: a_def d_def)
  have m: "nat (hi + 1 - lo) + 1 = d + 2" using a d by simp
  show ?thesis
  proof (cases "a \<le> i")
    case False
    then show ?thesis by (simp add: on_stride_def a)
  next
    case True
    define c where "c = i - a"
    have c: "i = a + c" using True by (simp add: c_def)
    have na: "nat lo = a" by (simp add: a_def)
    have L: "on_stride (nat lo) ((nat (hi + 1 - lo) + 1) div 2) i \<longleftrightarrow>
             (c < 2 * ((d + 2) div 2) \<and> c mod 2 = 0)"
      unfolding m na by (simp add: on_stride_def c)
    have "(int i - lo) mod 2 = 0 \<longleftrightarrow> c mod 2 = 0"
      unfolding a c by (rule int_diff_even)
    then have R: "(lo \<le> int i \<and> int i \<le> hi \<and> (int i - lo) mod 2 = 0) \<longleftrightarrow>
             (c \<le> d \<and> c mod 2 = 0)"
      by (simp add: a d c)
    show ?thesis unfolding L R by (rule stride_even_aux)
  qed
qed

lemma on_stride_odd:
  assumes "0 \<le> lo" "lo \<le> hi"
  shows "on_stride (nat (lo + 1)) ((nat (hi + 1 - (lo + 1)) + 1) div 2) i \<longleftrightarrow>
         lo \<le> int i \<and> int i \<le> hi \<and> (int i - lo) mod 2 = 1"
proof -
  define a where "a = nat lo"
  define d where "d = nat (hi - lo)"
  have a: "lo = int a" and d: "hi = int (a + d)" using assms by (simp_all add: a_def d_def)
  have m: "nat (hi + 1 - (lo + 1)) + 1 = d + 1" "nat (lo + 1) = a + 1" using a d by simp_all
  show ?thesis
  proof (cases "a + 1 \<le> i")
    case False
    then have "i < a \<or> i = a" by linarith
    then show ?thesis using False by (auto simp: on_stride_def a m)
  next
    case True
    define c where "c = i - (a + 1)"
    have c: "i = a + 1 + c" using True by (simp add: c_def)
    have L: "on_stride (nat (lo + 1)) ((nat (hi + 1 - (lo + 1)) + 1) div 2) i \<longleftrightarrow>
             (c < 2 * ((d + 1) div 2) \<and> c mod 2 = 0)"
      unfolding m by (simp add: on_stride_def c)
    have "(int i - lo) mod 2 = 1 \<longleftrightarrow> (c + 1) mod 2 = 1"
      unfolding a c by (rule int_diff_odd)
    moreover have "lo \<le> int i \<and> int i \<le> hi \<longleftrightarrow> c + 1 \<le> d"
      unfolding a d c by linarith
    ultimately have R: "(lo \<le> int i \<and> int i \<le> hi \<and> (int i - lo) mod 2 = 1) \<longleftrightarrow>
             (c + 1 \<le> d \<and> (c + 1) mod 2 = 1)"
      by blast
    show ?thesis unfolding L R by (rule stride_odd_aux)
  qed
qed

lemma on_stride_parity:
  assumes "0 \<le> lo" "lo \<le> hi" "p \<le> 1"
  shows "on_stride (nat (lo + int p)) ((nat (hi + 1 - (lo + int p)) + 1) div 2) i \<longleftrightarrow>
         lo \<le> int i \<and> int i \<le> hi \<and> (int i - lo) mod 2 = int p"
proof -
  from assms(3) consider "p = 0" | "p = 1" by linarith
  then show ?thesis
  proof cases
    case 1
    then show ?thesis using on_stride_even [OF assms(1,2), of i] by simp
  next
    case 2
    then show ?thesis using on_stride_odd [OF assms(1,2), of i] by simp
  qed
qed

lemma relax_stmt_sweep:
  assumes g: "grid_ok g" and v: "grid_shaped g v" and f: "grid_shaped g f"
    and p: "p \<le> 1" and q: "q \<le> 1"
  shows "relax_stmt (\<alpha> + Fin 2 * cx + Fin 2 * cy) cx cy f v
           (ilo g + int p) (ihi g + 1) (jlo g + int q) (jhi g + 1) =
         Inr (sweep p q \<alpha> cx cy g f v)"
proof -
  let ?M = "nat (qx g)" and ?N = "nat (qy g)"
  have rv: "rect ?M ?N v" and rf: "rect ?M ?N f"
    using v f by (simp_all add: grid_shaped_def)
  have M: "0 < ?M" using g by (simp add: grid_ok_def)
  have lv: "length v = ?M" "ncols v = ?N"
    using rv M by (simp_all add: rect_length rect_ncols)
  have b: "1 \<le> ilo g + int p" "ilo g + int p \<le> ihi g + 1" "ihi g + 1 + 1 \<le> int ?M"
    "1 \<le> jlo g + int q" "jlo g + int q \<le> jhi g + 1" "jhi g + 1 + 1 \<le> int ?N"
    using g p q by (simp_all add: grid_ok_def)
  have "relax_stmt (\<alpha> + Fin 2 * cx + Fin 2 * cy) cx cy f v
           (ilo g + int p) (ihi g + 1) (jlo g + int q) (jhi g + 1) =
        Inr (tab ?M ?N (\<lambda>i j.
                if on_stride (nat (ilo g + int p)) ((nat (ihi g + 1 - (ilo g + int p)) + 1) div 2) i \<and>
                   on_stride (nat (jlo g + int q)) ((nat (jhi g + 1 - (jlo g + int q)) + 1) div 2) j
                then stencil (\<alpha> + Fin 2 * cx + Fin 2 * cy) cx cy f v i j else v ! i ! j))"
    using rv rf b by (rule relax_stmt_eq)
  also have "tab ?M ?N (\<lambda>i j.
                if on_stride (nat (ilo g + int p)) ((nat (ihi g + 1 - (ilo g + int p)) + 1) div 2) i \<and>
                   on_stride (nat (jlo g + int q)) ((nat (jhi g + 1 - (jlo g + int q)) + 1) div 2) j
                then stencil (\<alpha> + Fin 2 * cx + Fin 2 * cy) cx cy f v i j else v ! i ! j) =
             sweep p q \<alpha> cx cy g f v"
    unfolding sweep_def lv
  proof (rule tab_cong)
    fix i j
    have i: "on_stride (nat (ilo g + int p)) ((nat (ihi g + 1 - (ilo g + int p)) + 1) div 2) i \<longleftrightarrow>
             ilo g \<le> int i \<and> int i \<le> ihi g \<and> (int i - ilo g) mod 2 = int p"
      using g p by (intro on_stride_parity) (simp_all add: grid_ok_def)
    have j: "on_stride (nat (jlo g + int q)) ((nat (jhi g + 1 - (jlo g + int q)) + 1) div 2) j \<longleftrightarrow>
             jlo g \<le> int j \<and> int j \<le> jhi g \<and> (int j - jlo g) mod 2 = int q"
      using g q by (intro on_stride_parity) (simp_all add: grid_ok_def)
    show "(if on_stride (nat (ilo g + int p)) ((nat (ihi g + 1 - (ilo g + int p)) + 1) div 2) i \<and>
              on_stride (nat (jlo g + int q)) ((nat (jhi g + 1 - (jlo g + int q)) + 1) div 2) j
           then stencil (\<alpha> + Fin 2 * cx + Fin 2 * cy) cx cy f v i j else v ! i ! j) =
          (if in_subgrid g p q i j then relaxed \<alpha> cx cy f v i j else v ! i ! j)"
      unfolding i j in_subgrid_def stencil_def relaxed_def by auto
  qed
  finally show ?thesis .
qed

lemma relax_ee_sweep:
  "grid_ok g \<Longrightarrow> grid_shaped g v \<Longrightarrow> grid_shaped g f \<Longrightarrow>
   relax_ee \<alpha> cx cy g f v = Inr (sweep 0 0 \<alpha> cx cy g f v)"
  using relax_stmt_sweep [of g v f 0 0 \<alpha> cx cy]
  by (simp add: relax_ee_def relax_stmt_def add.commute)

lemma relax_oo_sweep:
  "grid_ok g \<Longrightarrow> grid_shaped g v \<Longrightarrow> grid_shaped g f \<Longrightarrow>
   relax_oo \<alpha> cx cy g f v = Inr (sweep 1 1 \<alpha> cx cy g f v)"
  using relax_stmt_sweep [of g v f 1 1 \<alpha> cx cy]
  by (simp add: relax_oo_def relax_stmt_def add.commute)

lemma relax_oe_sweep:
  "grid_ok g \<Longrightarrow> grid_shaped g v \<Longrightarrow> grid_shaped g f \<Longrightarrow>
   relax_oe \<alpha> cx cy g f v = Inr (sweep 1 0 \<alpha> cx cy g f v)"
  using relax_stmt_sweep [of g v f 1 0 \<alpha> cx cy]
  by (simp add: relax_oe_def relax_stmt_def add.commute)

lemma relax_eo_sweep:
  "grid_ok g \<Longrightarrow> grid_shaped g v \<Longrightarrow> grid_shaped g f \<Longrightarrow>
   relax_eo \<alpha> cx cy g f v = Inr (sweep 0 1 \<alpha> cx cy g f v)"
  using relax_stmt_sweep [of g v f 0 1 \<alpha> cx cy]
  by (simp add: relax_eo_def relax_stmt_def add.commute)

lemma sweep_shaped:
  assumes "grid_ok g" "grid_shaped g v"
  shows "grid_shaped g (sweep p q \<alpha> cx cy g f v)"
proof -
  have "0 < nat (qx g)" using assms(1) by (simp add: grid_ok_def)
  then have "length v = nat (qx g)" "ncols v = nat (qy g)"
    using assms(2) by (simp_all add: grid_shaped_def rect_length rect_ncols)
  then show ?thesis by (simp add: sweep_def grid_shaped_def)
qed

lemma rb_pass_shaped:
  assumes "grid_ok g" "grid_shaped g v" "shape_preserving fill g"
  shows "grid_shaped g (rb_pass fill \<alpha> cx cy g f v)"
  using assms unfolding rb_pass_def shape_preserving_def
  by (simp add: sweep_shaped)

lemma smooth_pass_rb:
  assumes g: "grid_ok g" and v: "grid_shaped g v" and f: "grid_shaped g f"
    and fill: "shape_preserving fill g"
    and dx: "\<not> fl_eq (dx g * dx g) (Fin 0)" and dy: "\<not> fl_eq (dy g * dy g) (Fin 0)"
  shows "smooth_pass fill \<alpha> \<beta> g f v =
         Inr (rb_pass fill \<alpha> (\<beta> / (dx g * dx g)) (\<beta> / (dy g * dy g)) g f v)"
proof -
  let ?cx = "\<beta> / (dx g * dx g)" and ?cy = "\<beta> / (dy g * dy g)"
  let ?v1 = "sweep 0 0 \<alpha> ?cx ?cy g f v"
  let ?v2 = "sweep 1 1 \<alpha> ?cx ?cy g f ?v1"
  let ?v3 = "sweep 1 0 \<alpha> ?cx ?cy g f (fill ?v2)"
  have s1: "grid_shaped g ?v1" using g v by (rule sweep_shaped)
  have s2: "grid_shaped g ?v2" using g s1 by (rule sweep_shaped)
  have s2': "grid_shaped g (fill ?v2)" using fill s2 by (simp add: shape_preserving_def)
  have s3: "grid_shaped g ?v3" using g s2' by (rule sweep_shaped)
  have e1: "relax_ee \<alpha> ?cx ?cy g f v = Inr ?v1" using g v f by (rule relax_ee_sweep)
  have e2: "relax_oo \<alpha> ?cx ?cy g f ?v1 = Inr ?v2" using g s1 f by (rule relax_oo_sweep)
  have e3: "relax_oe \<alpha> ?cx ?cy g f (fill ?v2) = Inr ?v3" using g s2' f by (rule relax_oe_sweep)
  have e4: "relax_eo \<alpha> ?cx ?cy g f ?v3 = Inr (sweep 0 1 \<alpha> ?cx ?cy g f ?v3)"
    using g s3 f by (rule relax_eo_sweep)
  show ?thesis
    unfolding smooth_pass_def rb_pass_def py_div_def
    using dx dy by (simp only: if_False raising_Inr e1 e2 e3 e4)
qed

lemma smooth_loop_passes:
  assumes g: "grid_ok g" and f: "grid_shaped g f"
    and fill: "shape_preserving fill g"
    and dx: "\<not> fl_eq (dx g * dx g) (Fin 0)" and dy: "\<not> fl_eq (dy g * dy g) (Fin 0)"
  shows "grid_shaped g v \<Longrightarrow>
         smooth_loop fill \<alpha> \<beta> g f n i v =
         Inr ((rb_pass fill \<alpha> (\<beta> / (dx g * dx g)) (\<beta> / (dy g * dy g)) g f ^^ nat (n - i)) v)"
proof (induction "nat (n - i)" arbitrary: i v)
  case 0
  then have "\<not> i < n" by simp
  with 0 show ?case by (simp add: smooth_loop.simps [of fill \<alpha> \<beta> g f n i v])
next
  case (Suc k)
  then have lt: "i < n" and k: "k = nat (n - (i + 1))" by linarith+
  let ?pass = "rb_pass fill \<alpha> (\<beta> / (dx g * dx g)) (\<beta> / (dy g * dy g)) g f"
  have p: "smooth_pass fill \<alpha> \<beta> g f v = Inr (?pass v)"
    using g Suc.prems f fill dx dy by (rule smooth_pass_rb)
  have sh: "grid_shaped g (?pass v)" using g Suc.prems fill by (rule rb_pass_shaped)
  have "smooth_loop fill \<alpha> \<beta> g f n (i + 1) (?pass v) = Inr ((?pass ^^ k) (?pass v))"
    using Suc.hyps(1) [OF k sh] k by simp
  moreover have "nat (n - i) = Suc k" using Suc.hyps(2) by simp
  ultimately show ?case
    using lt p by (simp add: smooth_loop.simps [of fill \<alpha> \<beta> g f n i v] funpow_swap1)
qed

lemma ccMG2d_init_nsmooth:
  "ccMG2d_init P nx_a ny_a x0 x1 y0 y1 xl xr yl yr \<alpha> \<beta> verb = Inr mg \<Longrightarrow> nsmooth mg = 10"
  by (auto simp: ccMG2d_init_def Let_def split: if_splits sum.splits option.splits)

lemma smooth_eq_passes:
  assumes k: "py_index (length (grids self)) level = Some k"
    and g: "grid_ok (grid (grids self ! k))"
    and v: "grid_shaped (grid (grids self ! k)) (var_v (grids self ! k))"
    and f: "grid_shaped (grid (grids self ! k)) (var_f (grids self ! k))"
    and fill: "shape_preserving (fillBC P (grid (grids self ! k)) (bcs (grids self ! k)))
                 (grid (grids self ! k))"
    and dx: "\<not> fl_eq (dx (grid (grids self ! k)) * dx (grid (grids self ! k))) (Fin 0)"
    and dy: "\<not> fl_eq (dy (grid (grids self ! k)) * dy (grid (grids self ! k))) (Fin 0)"
  shows "smooth P self level n =
           Inr (self\<lparr>grids := (grids self)[k := (grids self ! k)
              \<lparr>var_v :=
                 (rb_pass (fillBC P (grid (grids self ! k)) (bcs (grids self ! k)))
                    (alpha self)
                    (beta self / (dx (grid (grids self ! k)) * dx (grid (grids self ! k))))
                    (beta self / (dy (grid (grids self ! k)) * dy (grid (grids self ! k))))
                    (grid (grids self ! k)) (var_f (grids self ! k)) ^^ nat n)
                   (fillBC P (grid (grids self ! k)) (bcs (grids self ! k))
                      (var_v (grids self ! k)))\<rparr>]\<rparr>)"
proof -
  let ?lev = "grids self ! k"
  let ?fill = "fillBC P (grid ?lev) (bcs ?lev)"
  have v0: "grid_shaped (grid ?lev) (?fill (var_v ?lev))"
    using fill v by (simp add: shape_preserving_def)
  have "smooth_loop ?fill (alpha self) (beta self) (grid ?lev) (var_f ?lev) n 0 (?fill (var_v ?lev)) =
        Inr ((rb_pass ?fill (alpha self)
                (beta self / (dx (grid ?lev) * dx (grid ?lev)))
                (beta self / (dy (grid ?lev) * dy (grid ?lev)))
                (grid ?lev) (var_f ?lev) ^^ nat (n - 0)) (?fill (var_v ?lev)))"
    using g f fill dx dy v0 by (rule smooth_loop_passes)
  then show ?thesis
    using k by (simp add: smooth_def Let_def)
qed

lemma fillBC_spec_shape: "grid_ok g \<Longrightarrow> shape_preserving (fillBC_spec g b) g"
proof -
  assume g: "grid_ok g"
  have M: "0 < nat (qx g)" using g by (simp add: grid_ok_def)
  show ?thesis
    unfolding shape_preserving_def grid_shaped_def
  proof (intro allI impI)
    fix a assume a: "rect (nat (qx g)) (nat (qy g)) a"
    then have "length a = nat (qx g)" "ncols a = nat (qy g)"
      using M by (simp_all add: rect_length rect_ncols)
    then show "rect (nat (qx g)) (nat (qy g)) (fillBC_spec g b a)"
      by (simp add: fillBC_spec_def)
  qed
qed

lemma demo_level:
  "py_index (length (grids mg_demo)) 1 = Some 1"
  "grid (grids mg_demo ! 1) = unit_grid 2"
  "bcs (grids mg_demo ! 1) = bc_periodic"
  "var_v (grids mg_demo ! 1) = zeros 4 4"
  "var_f (grids mg_demo ! 1) = demo_f"
  by (simp_all add: mg_demo_def mg_2x2_def py_index_def ccData2d_new_def unit_grid_def
      grid2d_new_def)

lemma unit_grid_2_ok: "grid_ok (unit_grid 2)"
  by (simp add: grid_ok_def unit_grid_def grid2d_new_def)

lemma demo_shapes:
  "grid_shaped (unit_grid 2) (zeros 4 4)" "grid_shaped (unit_grid 2) demo_f"
  by (simp_all add: grid_shaped_def unit_grid_def grid2d_new_def zeros_def)
     (simp add: rect_def demo_f_def)

lemma unit_grid_2_spacing:
  "\<not> fl_eq (dx (unit_grid 2) * dx (unit_grid 2)) (Fin 0)"
  "\<not> fl_eq (dy (unit_grid 2) * dy (unit_grid 2)) (Fin 0)"
  by (simp_all add: unit_grid_def grid2d_new_def times_fl_def minus_fl_def divide_fl_def)

lemmas eval_defs = tab_def upt_rec ncols_def in_subgrid_def relaxed_def unit_grid_def grid2d_new_def
  plus_fl_def minus_fl_def times_fl_def divide_fl_def uminus_fl_def zeros_def
  fillBC_spec_def bc_source_def bc_periodic_def

lemma demo_pass:
  "rb_pass (fillBC_spec (unit_grid 2) bc_periodic) (Fin 0)
      (Fin (- 1) / (dx (unit_grid 2) * dx (unit_grid 2)))
      (Fin (- 1) / (dy (unit_grid 2) * dy (unit_grid 2)))
      (unit_grid 2) demo_f
     (fillBC_spec (unit_grid 2) bc_periodic (zeros 4 4)) = demo_v"
  by (simp add: rb_pass_def sweep_def demo_f_def demo_v_def eval_defs)

lemma demo_fields:
  "alpha mg_demo = Fin 0" "beta mg_demo = Fin (- 1)" "fillBC patch_spec = fillBC_spec"
  by (simp_all add: mg_demo_def mg_2x2_def patch_spec_def)

lemma demo_fill:
  "shape_preserving (fillBC_spec (unit_grid 2) bc_periodic) (unit_grid 2)"
  using unit_grid_2_ok by (rule fillBC_spec_shape)

lemma smooth_demo:
  "smooth patch_spec mg_demo 1 1 =
     Inr (mg_demo\<lparr>grids := (grids mg_demo)[1 := (grids mg_demo ! 1)\<lparr>var_v := demo_v\<rparr>]\<rparr>)"
  using smooth_eq_passes [of mg_demo 1 1 patch_spec 1, unfolded demo_level demo_fields,
      OF refl unit_grid_2_ok demo_shapes demo_fill unit_grid_2_spacing]
  by (simp add: demo_pass)

section \<open>Facts about solve\<close>

lemma same_but_grids_flags:
  "same_but_grids s s' \<Longrightarrow>
   initializedSolution s' = initializedSolution s \<and> initializedRHS s' = initializedRHS s"
  by (cases s; cases s') (simp add: same_but_grids_def)

lemma cycle_end_flags:
  assumes "cycle_end P rtol self old cycle = Inr (c, s', old')"
  shows "initializedSolution s' = initializedSolution self \<and>
         initializedRHS s' = initializedRHS self"
proof -
  from assms obtain s1 where s1: "computeResidual self (nlevels self - 1) = Inr s1"
    and s': "initializedSolution s' = initializedSolution s1 \<and>
             initializedRHS s' = initializedRHS s1"
    unfolding cycle_end_def raising_eq_Inr
    by (fastforce simp: converged_update_def split: if_splits)
  show ?thesis
    using s' same_but_grids_flags [OF computeResidual_fields [OF s1]] by simp
qed

lemma solve_loop_flags:
  "solve_loop P rtol self old cycle = Inr s' \<Longrightarrow>
   initializedSolution s' = initializedSolution self \<and>
   initializedRHS s' = initializedRHS self"
proof (induction P rtol self old cycle rule: solve_loop.induct)
  case (1 P rtol self old cycle)
  show ?case
  proof (cases "cycle \<le> maxCycles self")
    case False
    with "1.prems" show ?thesis by (simp add: solve_loop.simps [of P rtol self old cycle])
  next
    case True
    with "1.prems" obtain s1 c s2 old' where
      s1: "vcycle P self = Inr s1" and
      ce: "cycle_end P rtol s1 old cycle = Inr (c, s2, old')" and
      rest: "(if c then Inr s2 else solve_loop P rtol s2 old' (cycle + 1)) = Inr s'"
      by (auto simp: solve_loop.simps [of P rtol self old cycle] raising_eq_Inr)
    have a: "initializedSolution s1 = initializedSolution self \<and>
             initializedRHS s1 = initializedRHS self"
      using same_but_grids_flags [OF vcycle_fields [OF s1]] .
    have b: "initializedSolution s2 = initializedSolution s1 \<and>
             initializedRHS s2 = initializedRHS s1"
      using cycle_end_flags [OF ce] .
    show ?thesis
    proof (cases c)
      case True
      with rest a b show ?thesis by simp
    next
      case False
      with rest have "solve_loop P rtol s2 old' (cycle + 1) = Inr s'" by simp
      from "1.IH" [OF True s1 ce refl refl False this] a b show ?thesis by simp
    qed
  qed
qed

lemma solve_flags:
  "solve P self rtol = Inr s' \<Longrightarrow>
   initializedSolution s' = initializedSolution self \<and>
   initializedRHS s' = initializedRHS self"
  by (auto simp: solve_def raising_eq_Inr dest: solve_loop_flags split: if_splits)

lemma do_call_solution_flag:
  "do_call P self c = Inr s' \<Longrightarrow> \<not> sets_solution c \<Longrightarrow>
   initializedSolution s' = initializedSolution self"
  by (cases c)
     (auto simp: initRHS_def raising_eq_Inr
           dest: smooth_fields computeResidual_fields same_but_grids_flags solve_flags)

lemma do_call_rhs_flag:
  "do_call P self c = Inr s' \<Longrightarrow> \<not> sets_rhs c \<Longrightarrow>
   initializedRHS s' = initializedRHS self"
  by (cases c)
     (auto simp: initSolution_def initZeros_def raising_eq_Inr
           dest: smooth_fields computeResidual_fields same_but_grids_flags solve_flags)

lemma run_solution_flag:
  "run P self cs = Inr s' \<Longrightarrow> \<forall>c \<in> set cs. \<not> sets_solution c \<Longrightarrow>
   initializedSolution s' = initializedSolution self"
  by (induction cs arbitrary: self) (auto simp: raising_eq_Inr dest: do_call_solution_flag)

lemma run_rhs_flag:
  "run P self cs = Inr s' \<Longrightarrow> \<forall>c \<in> set cs. \<not> sets_rhs c \<Longrightarrow>
   initializedRHS s' = initializedRHS self"
  by (induction cs arbitrary: self) (auto simp: raising_eq_Inr dest: do_call_rhs_flag)

lemma ccMG2d_init_flags:
  "ccMG2d_init P nx_a ny_a x0 x1 y0 y1 xl xr yl yr \<alpha> \<beta> verb = Inr mg \<Longrightarrow>
   initializedSolution mg = 0 \<and> initializedRHS mg = 0"
  by (auto simp: ccMG2d_init_def Let_def split: if_splits sum.splits option.splits)

lemma init_2x2:
  "ccMG2d_init patch_spec 2 2 (Fin 0) (Fin 1) (Fin 0) (Fin 1)
     ''periodic'' ''periodic'' ''periodic'' ''periodic'' (Fin 0) (Fin (- 1)) 0 = Inr mg_2x2"
  by code_simp

lemma run_2x2:
  "run patch_spec mg_2x2 [InitZeros] = Inr (mg_2x2\<lparr>initializedSolution := 1\<rparr>)"
  by (simp add: initZeros_def finest_def mg_2x2_def py_index_def setitem_def ccData2d_new_def
      unit_grid_def grid2d_new_def zeros_def tab_def ncols_def upt_rec)

lemma solve_uninitialised:
  assumes "ccMG2d_init P nx_a ny_a x0 x1 y0 y1 xl xr yl yr \<alpha> \<beta> verb = Inr mg0"
    and "run P mg0 calls = Inr mg"
    and "(\<forall>c \<in> set calls. \<not> sets_solution c) \<or> (\<forall>c \<in> set calls. \<not> sets_rhs c)"
  shows "solve P mg rtol = Inl (NameError ''msg'')"
proof -
  have "initializedSolution mg = 0 \<or> initializedRHS mg = 0"
    using assms ccMG2d_init_flags [OF assms(1)] run_solution_flag [OF assms(2)]
      run_rhs_flag [OF assms(2)] by auto
  then show ?thesis by (auto simp: solve_def)
qed



section \<open>The residual and the fixed points of the relaxation\<close>

lemma idxs_step1:
  assumes "0 \<le> lo" "lo \<le> hi" "hi \<le> int len"
  shows "idxs len (Sl lo hi 1) = [nat lo..<nat hi]"
  using assms by (simp add: norm_bound_def Let_def)

lemma upt_nth_in: "i \<in> set [s..<e] \<Longrightarrow> [s..<e] ! (i - s) = i \<and> i - s < length [s..<e]"
  by auto

lemma put_range:
  assumes a: "rect M N a" and mi: "e \<le> M" and nj: "u \<le> N"
  shows "put a [s..<e] [t..<u] (tab (e - s) (u - t) g) =
         tab M N (\<lambda>i j. if in_range s e i \<and> in_range t u j
                         then g (i - s) (j - t) else a ! i ! j)"
proof (rule nth_equalityI)
  show "length (put a [s..<e] [t..<u] (tab (e - s) (u - t) g)) =
        length (tab M N (\<lambda>i j. if in_range s e i \<and> in_range t u j
                         then g (i - s) (j - t) else a ! i ! j))"
    using a by (simp add: rect_def)
next
  fix i assume "i < length (put a [s..<e] [t..<u] (tab (e - s) (u - t) g))"
  then have iM: "i < M" using a by (simp add: rect_def)
  have rowlen: "length (a ! i) = N" using a iM by (simp add: rect_def)
  show "put a [s..<e] [t..<u] (tab (e - s) (u - t) g) ! i =
        tab M N (\<lambda>i j. if in_range s e i \<and> in_range t u j
                         then g (i - s) (j - t) else a ! i ! j) ! i"
  proof (cases "in_range s e i")
    case False
    then have "i \<notin> set [s..<e]" by (simp add: in_range_def)
    then have "put a [s..<e] [t..<u] (tab (e - s) (u - t) g) ! i = a ! i"
      by (rule put_nth_out)
    also have "a ! i = map (\<lambda>j. a ! i ! j) [0..<N]"
      using rowlen by (auto intro!: nth_equalityI)
    finally show ?thesis using False iM by simp
  next
    case True
    define k where "k = i - s"
    have k: "k < e - s" "[s..<e] ! k = i" using True unfolding in_range_def k_def by auto
    have "put a [s..<e] [t..<u] (tab (e - s) (u - t) g) ! ([s..<e] ! k)
          = put_row (a ! ([s..<e] ! k)) [t..<u] (tab (e - s) (u - t) g ! k)"
      using k a iM by (intro put_nth_in) (simp_all add: rect_def)
    then have eq: "put a [s..<e] [t..<u] (tab (e - s) (u - t) g) ! i
          = put_row (a ! i) [t..<u] (map (g k) [0..<u - t])"
      using k by simp
    show ?thesis unfolding eq
    proof (rule nth_equalityI)
      show "length (put_row (a ! i) [t..<u] (map (g k) [0..<u - t])) =
            length (tab M N (\<lambda>i j. if in_range s e i \<and> in_range t u j
                         then g (i - s) (j - t) else a ! i ! j) ! i)"
        using iM rowlen by simp
    next
      fix j assume "j < length (put_row (a ! i) [t..<u] (map (g k) [0..<u - t]))"
      then have jN: "j < N" using rowlen by simp
      show "put_row (a ! i) [t..<u] (map (g k) [0..<u - t]) ! j =
            tab M N (\<lambda>i j. if in_range s e i \<and> in_range t u j
                         then g (i - s) (j - t) else a ! i ! j) ! i ! j"
      proof (cases "in_range t u j")
        case False
        then have "j \<notin> set [t..<u]" by (simp add: in_range_def)
        then show ?thesis using False iM jN by (simp add: put_row_nth_out)
      next
        case Tj: True
        define l where "l = j - t"
        have l: "l < u - t" "[t..<u] ! l = j" using Tj unfolding in_range_def l_def by auto
        have "put_row (a ! i) [t..<u] (map (g k) [0..<u - t]) ! ([t..<u] ! l)
              = map (g k) [0..<u - t] ! l"
          using l jN rowlen by (intro put_row_nth_in) simp_all
        then have "put_row (a ! i) [t..<u] (map (g k) [0..<u - t]) ! j = g k l"
          using l by simp
        then show ?thesis using True Tj iM jN by (simp add: k_def [symmetric] l_def [symmetric])
      qed
    qed
  qed
qed

lemma map_map_tab_range:
  "map (\<lambda>i. map (\<lambda>j. a ! i ! j) [t..<u]) [s..<e]
   = tab (e - s) (u - t) (\<lambda>k l. a ! (s + k) ! (t + l))"
proof -
  have "[s..<e] = map (\<lambda>k. s + k) [0..<e - s]" "[t..<u] = map (\<lambda>k. t + k) [0..<u - t]"
    by (auto intro!: nth_equalityI)
  then show ?thesis by (simp add: tab_def comp_def)
qed

lemma getitem_range:
  assumes "rect M N a" "0 < M"
    and "0 \<le> lo" "lo \<le> hi" "hi \<le> int M" "0 \<le> lo'" "lo' \<le> hi'" "hi' \<le> int N"
  shows "getitem a (Sl lo hi 1) (Sl lo' hi' 1) =
         Ar (nat hi - nat lo) (nat hi' - nat lo')
            (tab (nat hi - nat lo) (nat hi' - nat lo')
               (\<lambda>k l. a ! (nat lo + k) ! (nat lo' + l)))"
proof -
  have i: "idxs (length a) (Sl lo hi 1) = [nat lo..<nat hi]"
    using assms by (intro idxs_step1) (simp_all add: rect_length)
  have j: "idxs (ncols a) (Sl lo' hi' 1) = [nat lo'..<nat hi']"
    using assms by (intro idxs_step1) (simp_all add: rect_ncols)
  show ?thesis
    unfolding getitem_def Let_def i j by (simp add: map_map_tab_range)
qed

lemma Ar_minus_Ar:
  "Ar m n (tab m n g) - Ar m n (tab m n g') = Ar m n (tab m n (\<lambda>i j. g i j - g' i j))"
  by (auto simp: minus_nd_def intro!: tab_cong)

lemma getitem_range_nat:
  assumes "rect M N a" "0 < M" "s + m \<le> M" "t + n \<le> N"
  shows "getitem a (Sl (int s) (int (s + m)) 1) (Sl (int t) (int (t + n)) 1) =
         Ar m n (tab m n (\<lambda>k l. a ! (s + k) ! (t + l)))"
proof -
  have nb: "\<And>x len. x \<le> len \<Longrightarrow> norm_bound len (int x) = x"
    by (simp add: norm_bound_def)
  have la: "length a = M" "ncols a = N" using assms by (simp_all add: rect_length rect_ncols)
  have i: "idxs (length a) (Sl (int s) (int (s + m)) 1) = [s..<s + m]"
    unfolding idxs.simps Let_def la using assms by (simp only: nb) simp
  have j: "idxs (ncols a) (Sl (int t) (int (t + n)) 1) = [t..<t + n]"
    unfolding idxs.simps Let_def la using assms by (simp only: nb) simp
  show ?thesis
    unfolding getitem_def Let_def i j by (simp add: map_map_tab_range)
qed

lemma residual_stmt:
  assumes g: "grid_ok g" and v: "grid_shaped g v" and f: "grid_shaped g f"
    and r: "grid_shaped g r"
  shows "setitem r (Sl (ilo g) (ihi g + 1) 1) (Sl (jlo g) (jhi g + 1) 1)
           (getitem f (Sl (ilo g) (ihi g + 1) 1) (Sl (jlo g) (jhi g + 1) 1) -
            Sc \<alpha> * getitem v (Sl (ilo g) (ihi g + 1) 1) (Sl (jlo g) (jhi g + 1) 1) +
            Sc \<beta> *
              ((getitem v (Sl (ilo g - 1) (ihi g) 1) (Sl (jlo g) (jhi g + 1) 1) +
                getitem v (Sl (ilo g + 1) (ihi g + 2) 1) (Sl (jlo g) (jhi g + 1) 1) -
                Sc (Fin 2) * getitem v (Sl (ilo g) (ihi g + 1) 1) (Sl (jlo g) (jhi g + 1) 1)) /
               Sc (dx g * dx g) +
               (getitem v (Sl (ilo g) (ihi g + 1) 1) (Sl (jlo g - 1) (jhi g) 1) +
                getitem v (Sl (ilo g) (ihi g + 1) 1) (Sl (jlo g + 1) (jhi g + 2) 1) -
                Sc (Fin 2) * getitem v (Sl (ilo g) (ihi g + 1) 1) (Sl (jlo g) (jhi g + 1) 1)) /
               Sc (dy g * dy g))) =
         Inr (residual_array \<alpha> \<beta> g f v r)"
proof -
  let ?M = "nat (qx g)" and ?N = "nat (qy g)"
  define s where "s = nat (ilo g)"
  define t where "t = nat (jlo g)"
  define m where "m = nat (ihi g + 1) - nat (ilo g)"
  define n where "n = nat (jhi g + 1) - nat (jlo g)"
  have rv: "rect ?M ?N v" and rf: "rect ?M ?N f" and rr: "rect ?M ?N r"
    using v f r by (simp_all add: grid_shaped_def)
  have M: "0 < ?M" using g by (simp add: grid_ok_def)
  have b: "1 \<le> ilo g" "ilo g \<le> ihi g" "ihi g + 2 \<le> int ?M"
    "1 \<le> jlo g" "jlo g \<le> jhi g" "jhi g + 2 \<le> int ?N"
    using g by (simp_all add: grid_ok_def)
  have one: "1 \<le> s" "1 \<le> t" using b unfolding s_def t_def by linarith+
  have il: "ilo g = int s" "ihi g + 1 = int (s + m)" "ilo g - 1 = int (s - 1)"
    "ihi g = int (s - 1 + m)" "ilo g + 1 = int (s + 1)" "ihi g + 2 = int (s + 1 + m)"
    using b by (auto simp: s_def m_def)
  have jl: "jlo g = int t" "jhi g + 1 = int (t + n)" "jlo g - 1 = int (t - 1)"
    "jhi g = int (t - 1 + n)" "jlo g + 1 = int (t + 1)" "jhi g + 2 = int (t + 1 + n)"
    using b by (auto simp: t_def n_def)
  have em: "s + 1 + m \<le> ?M" "t + 1 + n \<le> ?N"
    using g unfolding grid_ok_def s_def t_def m_def n_def by linarith+
  have gF: "getitem f (Sl (ilo g) (ihi g + 1) 1) (Sl (jlo g) (jhi g + 1) 1) =
            Ar m n (tab m n (\<lambda>k l. f ! (s + k) ! (t + l)))"
    using getitem_range_nat [of ?M ?N f "s" m "t" n] rf M em one
    unfolding il(1,2) jl(1,2) by simp
  have gV: "getitem v (Sl (ilo g) (ihi g + 1) 1) (Sl (jlo g) (jhi g + 1) 1) =
            Ar m n (tab m n (\<lambda>k l. v ! (s + k) ! (t + l)))"
    using getitem_range_nat [of ?M ?N v "s" m "t" n] rv M em one
    unfolding il(1,2) jl(1,2) by simp
  have gW: "getitem v (Sl (ilo g - 1) (ihi g) 1) (Sl (jlo g) (jhi g + 1) 1) =
            Ar m n (tab m n (\<lambda>k l. v ! (s - 1 + k) ! (t + l)))"
    using getitem_range_nat [of ?M ?N v "s - 1" m "t" n] rv M em one
    unfolding il(3,4) jl(1,2) by simp
  have gE: "getitem v (Sl (ilo g + 1) (ihi g + 2) 1) (Sl (jlo g) (jhi g + 1) 1) =
            Ar m n (tab m n (\<lambda>k l. v ! (s + 1 + k) ! (t + l)))"
    using getitem_range_nat [of ?M ?N v "s + 1" m "t" n] rv M em one
    unfolding il(5,6) jl(1,2) by simp
  have gS: "getitem v (Sl (ilo g) (ihi g + 1) 1) (Sl (jlo g - 1) (jhi g) 1) =
            Ar m n (tab m n (\<lambda>k l. v ! (s + k) ! (t - 1 + l)))"
    using getitem_range_nat [of ?M ?N v "s" m "t - 1" n] rv M em one
    unfolding il(1,2) jl(3,4) by simp
  have gN: "getitem v (Sl (ilo g) (ihi g + 1) 1) (Sl (jlo g + 1) (jhi g + 2) 1) =
            Ar m n (tab m n (\<lambda>k l. v ! (s + k) ! (t + 1 + l)))"
    using getitem_range_nat [of ?M ?N v "s" m "t + 1" n] rv M em one
    unfolding il(1,2) jl(5,6) by simp
  define G where "G = (\<lambda>k l.
      f ! (s + k) ! (t + l) - \<alpha> * v ! (s + k) ! (t + l) +
      \<beta> * ((v ! (s - 1 + k) ! (t + l) + v ! (s + 1 + k) ! (t + l) -
            Fin 2 * v ! (s + k) ! (t + l)) / (dx g * dx g) +
           (v ! (s + k) ! (t - 1 + l) + v ! (s + k) ! (t + 1 + l) -
            Fin 2 * v ! (s + k) ! (t + l)) / (dy g * dy g)))"
  have rhs: "getitem f (Sl (ilo g) (ihi g + 1) 1) (Sl (jlo g) (jhi g + 1) 1) -
            Sc \<alpha> * getitem v (Sl (ilo g) (ihi g + 1) 1) (Sl (jlo g) (jhi g + 1) 1) +
            Sc \<beta> *
              ((getitem v (Sl (ilo g - 1) (ihi g) 1) (Sl (jlo g) (jhi g + 1) 1) +
                getitem v (Sl (ilo g + 1) (ihi g + 2) 1) (Sl (jlo g) (jhi g + 1) 1) -
                Sc (Fin 2) * getitem v (Sl (ilo g) (ihi g + 1) 1) (Sl (jlo g) (jhi g + 1) 1)) /
               Sc (dx g * dx g) +
               (getitem v (Sl (ilo g) (ihi g + 1) 1) (Sl (jlo g - 1) (jhi g) 1) +
                getitem v (Sl (ilo g) (ihi g + 1) 1) (Sl (jlo g + 1) (jhi g + 2) 1) -
                Sc (Fin 2) * getitem v (Sl (ilo g) (ihi g + 1) 1) (Sl (jlo g) (jhi g + 1) 1)) /
               Sc (dy g * dy g)) = Ar m n (tab m n G)"
    unfolding gF gV gW gE gS gN G_def
    by (simp only: Ar_plus_Ar Ar_minus_Ar Sc_times_Ar Ar_div_Sc)
  have i: "idxs (length r) (Sl (ilo g) (ihi g + 1) 1) = [s..<s + m]"
    using idxs_step1 [of "ilo g" "ihi g + 1" "length r"] rr b
    by (simp add: rect_length s_def m_def)
  have j: "idxs (ncols r) (Sl (jlo g) (jhi g + 1) 1) = [t..<t + n]"
    using idxs_step1 [of "jlo g" "jhi g + 1" "ncols r"] rr M b
    by (simp add: rect_ncols t_def n_def)
  have lr: "length r = ?M" "ncols r = ?N" using rr M by (simp_all add: rect_length rect_ncols)
  have "setitem r (Sl (ilo g) (ihi g + 1) 1) (Sl (jlo g) (jhi g + 1) 1) (Ar m n (tab m n G)) =
        Inr (put r [s..<s + m] [t..<t + n] (tab m n G))"
  proof -
    have len: "length [s..<s + m] = m" "length [t..<t + n] = n" by simp_all
    show ?thesis
      unfolding setitem_def Let_def i j len bcast_to_same by simp
  qed
  also have "put r [s..<s + m] [t..<t + n] (tab m n G) =
     tab ?M ?N (\<lambda>i j. if in_range s (s + m) i \<and> in_range t (t + n) j
                     then G (i - s) (j - t) else r ! i ! j)"
    using put_range [OF rr, of "s + m" "t + n" s t G] em by simp
  also have "\<dots> = residual_array \<alpha> \<beta> g f v r"
    unfolding residual_array_def lr
  proof (rule tab_cong)
    fix i j
    have c: "in_range s (s + m) i \<and> in_range t (t + n) j \<longleftrightarrow> interior g i j"
      unfolding in_range_def interior_def il(1,4) jl(1,4) using one by auto
    show "(if in_range s (s + m) i \<and> in_range t (t + n) j
           then G (i - s) (j - t) else r ! i ! j) =
          (if interior g i j then residual_at \<alpha> \<beta> g f v i j else r ! i ! j)"
    proof (cases "interior g i j")
      case False
      then show ?thesis using c by auto
    next
      case True
      then have "s \<le> i" "t \<le> j" using c by (simp_all add: in_range_def)
      then have e: "s + (i - s) = i" "t + (j - t) = j" "s - 1 + (i - s) = i - 1"
        "s + 1 + (i - s) = i + 1" "t - 1 + (j - t) = j - 1" "t + 1 + (j - t) = j + 1"
        using one by simp_all
      show ?thesis using True c by (simp only: G_def residual_at_def e if_True)
    qed
  qed
  finally show ?thesis unfolding rhs .
qed

lemma computeResidual_eq:
  assumes k: "py_index (length (grids self)) level = Some k"
    and g: "grid_ok (grid (grids self ! k))"
    and v: "grid_shaped (grid (grids self ! k)) (var_v (grids self ! k))"
    and f: "grid_shaped (grid (grids self ! k)) (var_f (grids self ! k))"
    and r: "grid_shaped (grid (grids self ! k)) (var_r (grids self ! k))"
  shows "computeResidual self level =
         Inr (self\<lparr>grids := (grids self)[k := (grids self ! k)
            \<lparr>var_r := residual_array (alpha self) (beta self) (grid (grids self ! k))
                        (var_f (grids self ! k)) (var_v (grids self ! k))
                        (var_r (grids self ! k))\<rparr>]\<rparr>)"
  unfolding computeResidual_def Let_def k option.case residual_stmt [OF g v f r]
  by (simp only: raising_Inr)














lemma const_arr_shaped: "grid_shaped (unit_grid 2) (const_arr 4 4 c)"
  by (simp add: grid_shaped_def const_arr_def unit_grid_def grid2d_new_def)



lemmas eval_residual = residual_array_def residual_at_def interior_def const_arr_def
  demo_f_def demo_v_def










section \<open>The loops of a V-cycle as sequences of steps\<close>

lemma zero_from_fields:
  "nlevels (zero_from i self) = nlevels self"
  "length (grids (zero_from i self)) = length (grids self)"
  by (simp_all add: zero_from_def)

lemma zero_from_top: "length (grids self) \<le> i + 1 \<Longrightarrow> zero_from i self = self"
  by (cases self) (auto simp: zero_from_def intro!: nth_equalityI)

lemma zero_from_step:
  assumes "i + 1 < length (grids self)"
  shows "zero_from (Suc i)
           (self\<lparr>grids := (grids self)[i := (grids self ! i)
                     \<lparr>var_v := zero (var_v (grids self ! i))\<rparr>]\<rparr>) = zero_from i self"
  using assms by (auto simp: zero_from_def nth_list_update intro!: nth_equalityI)

lemma py_index_nat: "k < n \<Longrightarrow> py_index n (int k) = Some k"
  by (simp add: py_index_def)

lemma py_index_pred: "0 < k \<Longrightarrow> k < n \<Longrightarrow> py_index n (int k - 1) = Some (k - 1)"
  by (auto simp: py_index_def)

lemma zero_loop_eq:
  assumes "nlevels self = int (length (grids self))"
  shows "zero_loop self (int i) = Inr (zero_from i self)"
  using assms
proof (induction "length (grids self) - 1 - i" arbitrary: self i)
  case 0
  then have "\<not> int i < nlevels self - 1" by auto
  moreover have "zero_from i self = self" using 0 by (intro zero_from_top) auto
  ultimately show ?case by (simp add: zero_loop.simps [of self "int i"])
next
  case (Suc n)
  let ?s = "self\<lparr>grids := (grids self)[i := (grids self ! i)
                     \<lparr>var_v := zero (var_v (grids self ! i))\<rparr>]\<rparr>"
  from Suc.hyps(2) have i: "i + 1 < length (grids self)" by auto
  then have lt: "int i < nlevels self - 1" using Suc.prems by auto
  have k: "py_index (length (grids self)) (int i) = Some i" using i by (simp add: py_index_nat)
  have "zero_loop self (int i) = zero_loop ?s (int (Suc i))"
    using lt k by (simp add: zero_loop.simps [of self "int i"] add.commute)
  also have "\<dots> = Inr (zero_from (Suc i) ?s)"
    using Suc.hyps(2) Suc.prems by (intro Suc.hyps(1)) auto
  also have "zero_from (Suc i) ?s = zero_from i self" using i by (rule zero_from_step)
  finally show ?case .
qed

lemma raising_assoc: "raising (raising m f) g = raising m (\<lambda>x. raising (f x) g)"
  by (cases m) simp_all

lemma same_but_grids_length: "same_but_grids s s' \<Longrightarrow> length (grids s') = length (grids s)"
  by (simp add: same_but_grids_def)

lemma descent_step_fields:
  assumes "descent_step P k self = Inr s'"
  shows "same_but_grids self s'"
proof -
  from assms obtain s1 s2 s3 f' where
    a: "verbose_residual self (int k) = Inr s1" "smooth P s1 (int k) (nsmooth s1) = Inr s2"
       "computeResidual s2 (int k) = Inr s3"
       "s' = s3\<lparr>grids := (grids s3)[k - 1 := (grids s3 ! (k - 1))\<lparr>var_f := f'\<rparr>]\<rparr>"
    by (auto simp: descent_step_def raising_eq_Inr)
  have "same_but_grids self s3"
    using a(1-3) by (blast intro: same_but_grids_trans verbose_residual_fields smooth_fields
        computeResidual_fields)
  moreover have "same_but_grids s3 s'" unfolding a(4) by simp
  ultimately show ?thesis by (rule same_but_grids_trans)
qed

lemma ascent_step_fields:
  assumes "ascent_step P k self = Inr s'"
  shows "same_but_grids self s'"
proof -
  from assms obtain v' s2 s3 where
    a: "verbose_residual
          (self\<lparr>grids := (grids self)[k := (grids self ! k)\<lparr>var_v := v'\<rparr>]\<rparr>) (int k) = Inr s2"
       "smooth P s2 (int k) (nsmooth s2) = Inr s3" "verbose_residual s3 (int k) = Inr s'"
    by (auto simp: ascent_step_def raising_eq_Inr)
  have "same_but_grids self
          (self\<lparr>grids := (grids self)[k := (grids self ! k)\<lparr>var_v := v'\<rparr>]\<rparr>)" by simp
  then show ?thesis
    using a by (blast intro: same_but_grids_trans verbose_residual_fields smooth_fields)
qed

lemma descent_unfold:
  assumes "Suc n < length (grids self)"
  shows "descent P self (int (Suc n)) =
         raising (descent_step P (Suc n) self) (\<lambda>s. descent P s (int n))"
proof -
  have k: "py_index (length (grids self)) (int (Suc n)) = Some (Suc n)"
    "py_index (length (grids self)) (int (Suc n) - 1) = Some n"
    using assms py_index_nat [of "Suc n"] py_index_pred [of "Suc n"] by simp_all
  show ?thesis
    unfolding descent.simps [of P self "int (Suc n)"] descent_step_def raising_assoc k
    by simp
qed

lemma descent_eq:
  assumes "n < length (grids self)"
  shows "descent P self (int n) = fold_raising (descent_step P) (rev [1..<Suc n]) self"
  using assms
proof (induction n arbitrary: self)
  case 0
  show ?case by (simp add: descent.simps [of P self 0])
next
  case (Suc n)
  have "descent P self (int (Suc n)) =
        raising (descent_step P (Suc n) self) (\<lambda>s. descent P s (int n))"
    using Suc.prems by (rule descent_unfold)
  also have "\<dots> = raising (descent_step P (Suc n) self)
                     (fold_raising (descent_step P) (rev [1..<Suc n]))"
  proof (rule raising_cong [OF refl])
    fix s assume "descent_step P (Suc n) self = Inr s"
    then have "length (grids s) = length (grids self)"
      by (blast dest: descent_step_fields same_but_grids_length)
    then show "descent P s (int n) = fold_raising (descent_step P) (rev [1..<Suc n]) s"
      using Suc.prems by (intro Suc.IH) simp
  qed
  also have "\<dots> = fold_raising (descent_step P) (rev [1..<Suc (Suc n)]) self"
    by simp
  finally show ?case .
qed

lemma ascent_unfold:
  assumes "nlevels self = int (length (grids self))" "0 < i" "i < length (grids self)"
  shows "ascent P self (int i) =
         raising (ascent_step P i self) (\<lambda>s. ascent P s (int (Suc i)))"
proof -
  have k: "py_index (length (grids self)) (int i) = Some i"
    "py_index (length (grids self)) (int i - 1) = Some (i - 1)"
    using assms py_index_nat [of i] py_index_pred [of i] by simp_all
  have lt: "int i < nlevels self" using assms by simp
  show ?thesis
    unfolding ascent.simps [of P self "int i"] ascent_step_def raising_assoc k
    using lt by (simp add: add.commute)
qed

lemma ascent_eq:
  assumes "nlevels self = int (length (grids self))" "0 < i"
  shows "ascent P self (int i) = fold_raising (ascent_step P) [i..<length (grids self)] self"
  using assms
proof (induction "length (grids self) - i" arbitrary: self i)
  case 0
  then have "\<not> int i < nlevels self" by auto
  moreover have "length (grids self) \<le> i" using 0 by simp
  then have "fold_raising (ascent_step P) [i..<length (grids self)] self = Inr self" by simp
  ultimately show ?case by (simp only: ascent.simps [of P self "int i"] if_False)
next
  case (Suc n)
  from Suc.hyps(2) have i: "i < length (grids self)" by auto
  have "ascent P self (int i) = raising (ascent_step P i self) (\<lambda>s. ascent P s (int (Suc i)))"
    using Suc.prems i by (rule ascent_unfold)
  also have "\<dots> = raising (ascent_step P i self)
                     (fold_raising (ascent_step P) [Suc i..<length (grids self)])"
  proof (rule raising_cong [OF refl])
    fix s assume "ascent_step P i self = Inr s"
    then have sb: "same_but_grids self s" by (rule ascent_step_fields)
    then have l: "length (grids s) = length (grids self)" by (rule same_but_grids_length)
    have nl: "nlevels s = int (length (grids s))"
      using sb Suc.prems(1) l by (simp add: same_but_grids_nlevels)
    have "ascent P s (int (Suc i)) =
          fold_raising (ascent_step P) [Suc i..<length (grids s)] s"
      using Suc.hyps(2) l nl by (intro Suc.hyps(1)) auto
    then show "ascent P s (int (Suc i)) =
          fold_raising (ascent_step P) [Suc i..<length (grids self)] s" by (simp add: l)
  qed
  also have "\<dots> = fold_raising (ascent_step P) [i..<length (grids self)] self"
    using i by (simp add: upt_rec [of i])
  finally show ?case .
qed

lemma map_nth_fun: "map (\<lambda>j. h (xs ! j)) [0..<length xs] = map h xs"
  by (rule nth_equalityI) simp_all

lemma row_scaled:
  "Sc c * Ar (Suc 0) n [row] * Sc d * Sc e =
   Ar (Suc 0) n (tab (Suc 0) n (\<lambda>i j. c * row ! j * d * e))"
  by (auto simp: times_nd_def intro!: tab_cong)

lemma setrow_row:
  assumes "k < length a" "length (a ! k) = n"
  shows "setrow a (int k) (Ar (Suc 0) n (tab (Suc 0) n g)) = Inr (a[k := map (g 0) [0..<n]])"
proof -
  have e: "map (\<lambda>j. map (g 0) [0..<n] ! bidx n j) [0..<n] = map (g 0) [0..<n]"
    by (rule nth_equalityI) (auto simp: bidx_def)
  show ?thesis
    using assms by (simp add: setrow_def py_index_nat tab_def e)
qed

lemma bottom_solve_eq:
  assumes ne: "grids self \<noteq> []"
    and g: "grid_ok (grid (grids self ! 0))"
    and v: "grid_shaped (grid (grids self ! 0)) (var_v (grids self ! 0))"
    and f: "grid_shaped (grid (grids self ! 0)) (var_f (grids self ! 0))"
  shows "bottom_solve P self =
         Inr (self\<lparr>grids := (grids self)[0 := (grids self ! 0)
                \<lparr>var_v := fillBC P (grid (grids self ! 0)) (bcs (grids self ! 0))
                   (bottom_row (grid (grids self ! 0)) (var_f (grids self ! 0))
                      (var_v (grids self ! 0)))\<rparr>]\<rparr>)"
proof -
  let ?b = "grids self ! 0"
  let ?g = "grid ?b"
  define k where "k = nat (ilo ?g)"
  have ik: "ilo ?g = int k" using g by (simp add: k_def grid_ok_def)
  have kq: "k < nat (qx ?g)" using g by (simp add: k_def grid_ok_def)
  have lv: "length (var_v ?b) = nat (qx ?g)" "length (var_f ?b) = nat (qx ?g)"
    using v f by (simp_all add: grid_shaped_def rect_def)
  have rows: "length (var_v ?b ! k) = nat (qy ?g)" "length (var_f ?b ! k) = nat (qy ?g)"
    using v f kq lv by (simp_all add: grid_shaped_def rect_def)
  have p0: "py_index (length (grids self)) 0 = Some 0"
    using ne by (simp add: py_index_def)
  have gr: "getrow (var_f ?b) (ilo ?g) = Inr (Ar (Suc 0) (nat (qy ?g)) [var_f ?b ! k])"
    using kq lv rows by (simp add: getrow_def ik py_index_nat)
  have sr: "setrow (var_v ?b) (ilo ?g)
              (Sc (Fin (- 0.125)) * Ar (Suc 0) (nat (qy ?g)) [var_f ?b ! k] * Sc (dx ?g) * Sc (dx ?g)) =
            Inr (bottom_row ?g (var_f ?b) (var_v ?b))"
    unfolding row_scaled ik
    using kq lv rows
    using map_nth_fun [of "\<lambda>x. Fin (- 0.125) * x * dx ?g * dx ?g" "var_f ?b ! k"]
    by (simp add: setrow_row bottom_row_def ik)
  show ?thesis
    by (simp only: bottom_solve_def p0 option.case Let_def gr raising_Inr sr)
qed

lemma bottom_row_cell:
  assumes g: "grid_ok g" and v: "grid_shaped g v" and f: "grid_shaped g f"
  and j: "j < nat (qy g)"
  shows "bottom_row g f v ! nat (ilo g) ! j =
         Fin (- 0.125) * f ! nat (ilo g) ! j * dx g * dx g"
proof -
  have kq: "nat (ilo g) < nat (qx g)" using g by (simp add: grid_ok_def)
  have "length v = nat (qx g)" "length f = nat (qx g)"
    using v f by (simp_all add: grid_shaped_def rect_def)
  moreover from this have "length (f ! nat (ilo g)) = nat (qy g)"
    using f kq by (simp add: grid_shaped_def rect_def)
  ultimately show ?thesis using kq j by (simp add: bottom_row_def)
qed

lemma fold_descent_fields:
  "fold_raising (descent_step P) ks s = Inr s' \<Longrightarrow> same_but_grids s s'"
proof (induction ks arbitrary: s)
  case Nil
  then show ?case by simp
next
  case (Cons k ks)
  then obtain s1 where "descent_step P k s = Inr s1" "fold_raising (descent_step P) ks s1 = Inr s'"
    by (auto simp: raising_eq_Inr)
  then show ?case
    using Cons.IH by (blast intro: same_but_grids_trans descent_step_fields)
qed

lemma zero_coarse_fields: "same_but_grids self (zero_coarse self)"
  by (simp add: zero_coarse_def zero_from_def)

lemma vcycle_eq:
  assumes nl: "nlevels self = int (length (grids self))" and ne: "grids self \<noteq> []"
  shows "vcycle P self =
           raising (fold_raising (descent_step P) (rev [1..<length (grids self)])
                      (zero_coarse self)) (\<lambda>s1.
           raising (bottom_solve P s1) (\<lambda>s2.
           fold_raising (ascent_step P) [1..<length (grids self)] s2))"
proof -
  let ?L = "length (grids self)"
  let ?z = "zero_coarse self"
  have z: "zero_loop self 0 = Inr ?z"
    using zero_loop_eq [OF nl, of 0] by (simp add: zero_coarse_def)
  have zl: "length (grids ?z) = ?L" "nlevels ?z = int ?L"
    using nl by (simp_all add: zero_coarse_def zero_from_fields)
  have L: "0 < ?L" using ne by simp
  have S: "Suc (?L - 1) = ?L" using L by simp
  have n1: "nlevels ?z - 1 = int (?L - 1)" using zl(2) ne by (cases "grids self") simp_all
  have "?L - 1 < length (grids ?z)" using L zl(1) by simp
  then have "descent P ?z (int (?L - 1)) =
             fold_raising (descent_step P) (rev [1..<Suc (?L - 1)]) ?z"
    by (rule descent_eq)
  then have d: "descent P ?z (nlevels ?z - 1) =
                fold_raising (descent_step P) (rev [1..<?L]) ?z"
    unfolding S n1 .
  have a: "raising (bottom_solve P s1) (\<lambda>s2. ascent P s2 1) =
           raising (bottom_solve P s1) (\<lambda>s2. fold_raising (ascent_step P) [1..<?L] s2)"
    if s1: "fold_raising (descent_step P) (rev [1..<?L]) ?z = Inr s1" for s1
  proof (rule raising_cong [OF refl])
    fix s2 assume b: "bottom_solve P s1 = Inr s2"
    have "same_but_grids self s2"
      using zero_coarse_fields fold_descent_fields [OF s1] bottom_solve_fields [OF b]
      by (blast intro: same_but_grids_trans)
    then have "length (grids s2) = ?L" "nlevels s2 = int (length (grids s2))"
      using nl by (simp_all add: same_but_grids_length same_but_grids_nlevels)
    then show "ascent P s2 1 = fold_raising (ascent_step P) [1..<?L] s2"
      using ascent_eq [of s2 1 P] by simp
  qed
  show ?thesis
    unfolding vcycle_def z raising_Inr d
    by (rule raising_cong [OF refl]) (rule a)
qed

lemma two_fields:
  "nlevels (mg_two v0 f0 v1 f1 r1) = 2" "length (grids (mg_two v0 f0 v1 f1 r1)) = 2"
  "alpha (mg_two v0 f0 v1 f1 r1) = Fin 0" "beta (mg_two v0 f0 v1 f1 r1) = Fin (- 1)"
  "nsmooth (mg_two v0 f0 v1 f1 r1) = 1" "verbose (mg_two v0 f0 v1 f1 r1) = 0"
  by (simp_all add: mg_two_def mg_2x2_def)

lemma two_level1:
  "grid (grids (mg_two v0 f0 v1 f1 r1) ! Suc 0) = unit_grid 2"
  "bcs (grids (mg_two v0 f0 v1 f1 r1) ! Suc 0) = bc_periodic"
  "var_v (grids (mg_two v0 f0 v1 f1 r1) ! Suc 0) = v1"
  "var_f (grids (mg_two v0 f0 v1 f1 r1) ! Suc 0) = f1"
  "var_r (grids (mg_two v0 f0 v1 f1 r1) ! Suc 0) = r1"
  by (simp_all add: mg_two_def ccData2d_new_def)

lemma two_level0:
  "grid (grids (mg_two v0 f0 v1 f1 r1) ! 0) = unit_grid 1"
  "bcs (grids (mg_two v0 f0 v1 f1 r1) ! 0) = bc_periodic"
  "var_v (grids (mg_two v0 f0 v1 f1 r1) ! 0) = v0"
  "var_f (grids (mg_two v0 f0 v1 f1 r1) ! 0) = f0"
  by (simp_all add: mg_two_def ccData2d_new_def)

lemma two_update:
  "(mg_two v0 f0 v1 f1 r1)\<lparr>grids := (grids (mg_two v0 f0 v1 f1 r1))
      [Suc 0 := (grids (mg_two v0 f0 v1 f1 r1) ! Suc 0)\<lparr>var_v := v1'\<rparr>]\<rparr> = mg_two v0 f0 v1' f1 r1"
  "(mg_two v0 f0 v1 f1 r1)\<lparr>grids := (grids (mg_two v0 f0 v1 f1 r1))
      [Suc 0 := (grids (mg_two v0 f0 v1 f1 r1) ! Suc 0)\<lparr>var_r := r1'\<rparr>]\<rparr> = mg_two v0 f0 v1 f1 r1'"
  "(mg_two v0 f0 v1 f1 r1)\<lparr>grids := (grids (mg_two v0 f0 v1 f1 r1))
      [0 := (grids (mg_two v0 f0 v1 f1 r1) ! 0)\<lparr>var_f := f0'\<rparr>]\<rparr> = mg_two v0 f0' v1 f1 r1"
  "(mg_two v0 f0 v1 f1 r1)\<lparr>grids := (grids (mg_two v0 f0 v1 f1 r1))
      [0 := (grids (mg_two v0 f0 v1 f1 r1) ! 0)\<lparr>var_v := v0'\<rparr>]\<rparr> = mg_two v0' f0 v1 f1 r1"
  by (simp_all add: mg_two_def)

lemma two_zero_coarse:
  "zero_coarse (mg_two (const_arr 3 3 c) f0 v1 f1 r1) = mg_two (zeros 3 3) f0 v1 f1 r1"
  by (simp add: zero_coarse_def zero_from_def mg_two_def mg_2x2_def zero_def const_arr_def
      zeros_def tab_def upt_rec)

lemma two_shapes:
  "grid_shaped (unit_grid 2) cyc_v1" "grid_shaped (unit_grid 2) cyc_r1"
  "grid_shaped (unit_grid 2) cyc_v2"
  "grid_shaped (unit_grid 1) cyc_f0" "grid_shaped (unit_grid 1) (zeros 3 3)"
  by (simp_all add: grid_shaped_def unit_grid_def grid2d_new_def rect_def
      cyc_v1_def cyc_r1_def cyc_v2_def cyc_f0_def zeros_def tab_def)

lemma unit_grid_1_ok: "grid_ok (unit_grid 1)"
  by (simp add: grid_ok_def unit_grid_def grid2d_new_def)

lemma two_pass1:
  "rb_pass (fillBC_spec (unit_grid 2) bc_periodic) (Fin 0)
      (Fin (- 1) / (dx (unit_grid 2) * dx (unit_grid 2)))
      (Fin (- 1) / (dy (unit_grid 2) * dy (unit_grid 2)))
      (unit_grid 2) (const_arr 4 4 (Fin 1))
     (fillBC_spec (unit_grid 2) bc_periodic (zeros 4 4)) = cyc_v1"
  by (simp add: rb_pass_def sweep_def const_arr_def cyc_v1_def eval_defs)

lemma two_smooth1:
  "smooth patch_spec (mg_two v0 f0 (zeros 4 4) (const_arr 4 4 (Fin 1)) r1) 1 1 =
     Inr (mg_two v0 f0 cyc_v1 (const_arr 4 4 (Fin 1)) r1)"
  using smooth_eq_passes [of "mg_two v0 f0 (zeros 4 4) (const_arr 4 4 (Fin 1)) r1" 1 1 patch_spec 1]
    unit_grid_2_ok demo_shapes(1) const_arr_shaped demo_fill unit_grid_2_spacing
  by (simp add: two_fields two_level1 two_update py_index_def demo_fields(3) two_pass1)

lemma two_residual:
  "residual_array (Fin 0) (Fin (- 1)) (unit_grid 2) (const_arr 4 4 (Fin 1)) cyc_v1 (zeros 4 4)
   = cyc_r1"
  by (simp add: eval_residual cyc_v1_def cyc_r1_def eval_defs)

lemma two_computeResidual:
  "computeResidual (mg_two v0 f0 cyc_v1 (const_arr 4 4 (Fin 1)) (zeros 4 4)) 1 =
     Inr (mg_two v0 f0 cyc_v1 (const_arr 4 4 (Fin 1)) cyc_r1)"
  using computeResidual_eq [of "mg_two v0 f0 cyc_v1 (const_arr 4 4 (Fin 1)) (zeros 4 4)" 1 1]
    unit_grid_2_ok two_shapes(1) const_arr_shaped demo_shapes(1)
  by (simp add: two_fields two_level1 two_update py_index_def two_residual)

lemma two_restrict:
  "setitem (zeros 3 3) All All (restrict_spec (unit_grid 2) cyc_r1) = Inr cyc_f0"
  by (simp add: setitem_def restrict_spec_def cyc_r1_def cyc_f0_def eval_defs)

lemma two_descent:
  "descent_step patch_spec (Suc 0) (mg_two (zeros 3 3) (zeros 3 3) (zeros 4 4) (const_arr 4 4 (Fin 1))
      (zeros 4 4)) =
   Inr (mg_two (zeros 3 3) cyc_f0 cyc_v1 (const_arr 4 4 (Fin 1)) cyc_r1)"
  using two_smooth1 [of "zeros 3 3" "zeros 3 3" "zeros 4 4"]
    two_computeResidual [of "zeros 3 3" "zeros 3 3"]
  by (simp add: descent_step_def verbose_residual_def two_fields two_level1 two_level0 two_update
      patch_spec_def two_restrict)

lemma two_bottom_row:
  "fillBC_spec (unit_grid 1) bc_periodic (bottom_row (unit_grid 1) cyc_f0 (zeros 3 3)) =
   const_arr 3 3 (Fin (- (1 / 8)))"
  by (simp add: bottom_row_def cyc_f0_def const_arr_def eval_defs)

lemma two_prolong:
  "setitem cyc_v1 All All
     (getitem cyc_v1 All All + prolong_spec (unit_grid 1) (const_arr 3 3 (Fin (- (1 / 8))))) =
   Inr (tab 4 4 (\<lambda>i j. cyc_v1 ! i ! j +
          (if 1 \<le> i \<and> i < 3 \<and> 1 \<le> j \<and> j < 3 then Fin (- (1 / 8)) else Fin 0)))"
  by (simp add: setitem_def getitem_def prolong_spec_def plus_nd_def bcompat_def bdim_def bidx_def
      cyc_v1_def const_arr_def eval_defs)

lemma two_correct:
  "setitem cyc_v1 All All
     (getitem cyc_v1 All All + prolong_spec (unit_grid 1) (const_arr 3 3 (Fin (- (1 / 8))))) =
   Inr cyc_vc"
  by (simp add: setitem_def getitem_def prolong_spec_def plus_nd_def bcompat_def bdim_def bidx_def
      cyc_v1_def cyc_vc_def const_arr_def eval_defs)

lemma cyc_vc_shaped: "grid_shaped (unit_grid 2) cyc_vc"
  by (simp add: grid_shaped_def unit_grid_def grid2d_new_def rect_def cyc_vc_def)

lemma two_pass2:
  "rb_pass (fillBC_spec (unit_grid 2) bc_periodic) (Fin 0)
      (Fin (- 1) / (dx (unit_grid 2) * dx (unit_grid 2)))
      (Fin (- 1) / (dy (unit_grid 2) * dy (unit_grid 2)))
      (unit_grid 2) (const_arr 4 4 (Fin 1))
     (fillBC_spec (unit_grid 2) bc_periodic cyc_vc) = cyc_v2"
  by (simp add: rb_pass_def sweep_def const_arr_def cyc_vc_def cyc_v2_def eval_defs)

lemma two_smooth2:
  "smooth patch_spec (mg_two v0 f0 cyc_vc (const_arr 4 4 (Fin 1)) r1) 1 1 =
     Inr (mg_two v0 f0 cyc_v2 (const_arr 4 4 (Fin 1)) r1)"
  using smooth_eq_passes [of "mg_two v0 f0 cyc_vc (const_arr 4 4 (Fin 1)) r1" 1 1 patch_spec 1]
    unit_grid_2_ok cyc_vc_shaped const_arr_shaped demo_fill unit_grid_2_spacing
  by (simp add: two_fields two_level1 two_update py_index_def demo_fields(3) two_pass2)

lemma two_ascent:
  "ascent_step patch_spec (Suc 0)
     (mg_two (const_arr 3 3 (Fin (- (1 / 8)))) cyc_f0 cyc_v1 (const_arr 4 4 (Fin 1)) cyc_r1) =
   Inr (mg_two (const_arr 3 3 (Fin (- (1 / 8)))) cyc_f0 cyc_v2 (const_arr 4 4 (Fin 1)) cyc_r1)"
  using two_smooth2 [of "const_arr 3 3 (Fin (- (1 / 8)))" cyc_f0 cyc_r1]
  by (simp add: ascent_step_def verbose_residual_def two_fields two_level1 two_level0 two_update
      patch_spec_def two_correct)

lemma raising_fold_Nil: "raising m (fold_raising step []) = m"
  by (cases m) simp_all

section \<open>The order of the relaxation in smooth\<close>

text \<open>
  Claim C1.  On a level with a usable grid, arrays \<open>v\<close> and \<open>f\<close> of the shape of
  the grid, a ghost fill that keeps that shape and non-zero \<open>dx*dx\<close> and
  \<open>dy*dy\<close>, \<open>smooth(level, nsmooth)\<close> fills the ghost cells of \<open>v\<close> once and then
  runs \<open>nsmooth\<close> passes.  Each pass updates the sub-grids (even, even),
  (odd, odd), fills the ghost cells, updates (odd, even), (even, odd) and fills
  the ghost cells again, and an updated cell receives
  \<open>(f + cx (v[i+1,j] + v[i-1,j]) + cy (v[i,j+1] + v[i,j-1])) / (alpha + 2 cx + 2 cy)\<close>
  with \<open>cx = beta / dx^2\<close> and \<open>cy = beta / dy^2\<close>.  A constructed solver has
  \<open>nsmooth = 10\<close>.
\<close>

theorem smooth_red_black:
  assumes k: "py_index (length (grids self)) level = Some k"
    and g: "grid_ok (grid (grids self ! k))"
    and v: "grid_shaped (grid (grids self ! k)) (var_v (grids self ! k))"
    and f: "grid_shaped (grid (grids self ! k)) (var_f (grids self ! k))"
    and fill: "shape_preserving (fillBC P (grid (grids self ! k)) (bcs (grids self ! k)))
                 (grid (grids self ! k))"
    and dx: "\<not> fl_eq (dx (grid (grids self ! k)) * dx (grid (grids self ! k))) (Fin 0)"
    and dy: "\<not> fl_eq (dy (grid (grids self ! k)) * dy (grid (grids self ! k))) (Fin 0)"
  shows "smooth P self level n =
           Inr (self\<lparr>grids := (grids self)[k := (grids self ! k)
              \<lparr>var_v :=
                 (rb_pass (fillBC P (grid (grids self ! k)) (bcs (grids self ! k)))
                    (alpha self)
                    (beta self / (dx (grid (grids self ! k)) * dx (grid (grids self ! k))))
                    (beta self / (dy (grid (grids self ! k)) * dy (grid (grids self ! k))))
                    (grid (grids self ! k)) (var_f (grids self ! k)) ^^ nat n)
                   (fillBC P (grid (grids self ! k)) (bcs (grids self ! k))
                      (var_v (grids self ! k)))\<rparr>]\<rparr>) \<and>
         (\<forall>P' nx_a ny_a x0 x1 y0 y1 xl xr yl yr \<alpha> \<beta> verb mg.
            ccMG2d_init P' nx_a ny_a x0 x1 y0 y1 xl xr yl yr \<alpha> \<beta> verb = Inr mg \<longrightarrow>
            nsmooth mg = 10)"
  using smooth_eq_passes [OF assms] by (simp add: ccMG2d_init_nsmooth)

theorem smooth_red_black_witness:
  "smooth patch_spec mg_demo 1 1 =
     Inr (mg_demo\<lparr>grids := (grids mg_demo)[1 := (grids mg_demo ! 1)\<lparr>var_v := demo_v\<rparr>]\<rparr>) \<and>
   nsmooth mg_2x2 = 10"
proof -
  note inst = smooth_red_black [of mg_demo 1 1 patch_spec 1, unfolded demo_level demo_fields,
      OF refl unit_grid_2_ok demo_shapes demo_fill unit_grid_2_spacing]
  from inst have "smooth patch_spec mg_demo 1 1 =
     Inr (mg_demo\<lparr>grids := (grids mg_demo)[1 := (grids mg_demo ! 1)\<lparr>var_v := demo_v\<rparr>]\<rparr>)"
    by (simp add: demo_pass)
  moreover from inst init_2x2 have "nsmooth mg_2x2 = 10" by blast
  ultimately show ?thesis by (rule conjI)
qed

section \<open>The order of a V-cycle\<close>

text \<open>
  Claim C2.  On a solver whose list of levels is not empty and has \<open>nlevels\<close>
  entries, the body of the loop of \<open>solve\<close> up to the end of the ascent does the
  following, in this order: \<open>v\<close> is set to zero on every level but the finest;
  the levels \<open>L-1\<close> down to 1 are visited, on each of them \<open>nsmooth\<close> passes are
  smoothed, the residual is computed and its restriction is stored as \<open>f\<close> of the
  next coarser level; the bottom solve is run on level 0; the levels 1 up to
  \<open>L-1\<close> are visited, on each of them the prolonged \<open>v\<close> of the next coarser level
  is added to \<open>v\<close> and \<open>nsmooth\<close> passes are smoothed.  The first exception ends
  the cycle.  On a level 0 with a usable grid and arrays of its shape the
  bottom solve writes \<open>-0.125 f dx dx\<close> into the cells of row \<open>ilo\<close> of \<open>v\<close>, the
  cell \<open>(ilo, jlo)\<close> among them, and fills the ghost cells.
\<close>

theorem vcycle_order:
  assumes "nlevels self = int (length (grids self))" and "grids self \<noteq> []"
  shows "vcycle P self =
           raising (fold_raising (descent_step P) (rev [1..<length (grids self)])
                      (zero_coarse self)) (\<lambda>s1.
           raising (bottom_solve P s1) (\<lambda>s2.
           fold_raising (ascent_step P) [1..<length (grids self)] s2)) \<and>
         (\<forall>s. grids s \<noteq> [] \<and> grid_ok (grid (grids s ! 0)) \<and>
              grid_shaped (grid (grids s ! 0)) (var_v (grids s ! 0)) \<and>
              grid_shaped (grid (grids s ! 0)) (var_f (grids s ! 0)) \<longrightarrow>
            bottom_solve P s =
              Inr (s\<lparr>grids := (grids s)[0 := (grids s ! 0)
                     \<lparr>var_v := fillBC P (grid (grids s ! 0)) (bcs (grids s ! 0))
                        (bottom_row (grid (grids s ! 0)) (var_f (grids s ! 0))
                           (var_v (grids s ! 0)))\<rparr>]\<rparr>) \<and>
            bottom_row (grid (grids s ! 0)) (var_f (grids s ! 0)) (var_v (grids s ! 0))
                ! nat (ilo (grid (grids s ! 0))) ! nat (jlo (grid (grids s ! 0))) =
              Fin (- 0.125) *
                var_f (grids s ! 0) ! nat (ilo (grid (grids s ! 0))) ! nat (jlo (grid (grids s ! 0))) *
                dx (grid (grids s ! 0)) * dx (grid (grids s ! 0)))"
proof (intro conjI allI impI)
  show "vcycle P self =
           raising (fold_raising (descent_step P) (rev [1..<length (grids self)])
                      (zero_coarse self)) (\<lambda>s1.
           raising (bottom_solve P s1) (\<lambda>s2.
           fold_raising (ascent_step P) [1..<length (grids self)] s2))"
    using assms by (rule vcycle_eq)
next
  fix s :: ccMG2d
  assume a: "grids s \<noteq> [] \<and> grid_ok (grid (grids s ! 0)) \<and>
              grid_shaped (grid (grids s ! 0)) (var_v (grids s ! 0)) \<and>
              grid_shaped (grid (grids s ! 0)) (var_f (grids s ! 0))"
  then show "bottom_solve P s =
              Inr (s\<lparr>grids := (grids s)[0 := (grids s ! 0)
                     \<lparr>var_v := fillBC P (grid (grids s ! 0)) (bcs (grids s ! 0))
                        (bottom_row (grid (grids s ! 0)) (var_f (grids s ! 0))
                           (var_v (grids s ! 0)))\<rparr>]\<rparr>)"
    by (intro bottom_solve_eq) simp_all
  have "nat (jlo (grid (grids s ! 0))) < nat (qy (grid (grids s ! 0)))"
    using a by (simp add: grid_ok_def)
  with a show "bottom_row (grid (grids s ! 0)) (var_f (grids s ! 0)) (var_v (grids s ! 0))
                ! nat (ilo (grid (grids s ! 0))) ! nat (jlo (grid (grids s ! 0))) =
              Fin (- 0.125) *
                var_f (grids s ! 0) ! nat (ilo (grid (grids s ! 0))) ! nat (jlo (grid (grids s ! 0))) *
                dx (grid (grids s ! 0)) * dx (grid (grids s ! 0))"
    by (intro bottom_row_cell) simp_all
qed

theorem vcycle_order_witness:
  "vcycle patch_spec
     (mg_two (const_arr 3 3 (Fin 7)) (zeros 3 3) (zeros 4 4) (const_arr 4 4 (Fin 1)) (zeros 4 4)) =
   Inr (mg_two (const_arr 3 3 (Fin (- (1 / 8)))) cyc_f0 cyc_v2 (const_arr 4 4 (Fin 1)) cyc_r1)"
proof -
  let ?A = "mg_two (const_arr 3 3 (Fin 7)) (zeros 3 3) (zeros 4 4) (const_arr 4 4 (Fin 1))
              (zeros 4 4)"
  let ?B = "mg_two (zeros 3 3) cyc_f0 cyc_v1 (const_arr 4 4 (Fin 1)) cyc_r1"
  have h: "nlevels ?A = int (length (grids ?A))" "grids ?A \<noteq> []"
    by (simp_all add: mg_two_def mg_2x2_def)
  note inst = vcycle_order [of ?A patch_spec, OF h]
  have lv: "rev [1..<length (grids ?A)] = [1]" "[1..<length (grids ?A)] = [1]"
    by (simp_all add: two_fields upt_rec)
  have hb: "grids ?B \<noteq> [] \<and> grid_ok (grid (grids ?B ! 0)) \<and>
            grid_shaped (grid (grids ?B ! 0)) (var_v (grids ?B ! 0)) \<and>
            grid_shaped (grid (grids ?B ! 0)) (var_f (grids ?B ! 0))"
    using two_fields(2) [of "zeros 3 3" cyc_f0 cyc_v1 "const_arr 4 4 (Fin 1)" cyc_r1]
    by (auto simp: two_level0 unit_grid_1_ok two_shapes)
  from inst hb have "bottom_solve patch_spec ?B =
      Inr (?B\<lparr>grids := (grids ?B)[0 := (grids ?B ! 0)
             \<lparr>var_v := fillBC patch_spec (grid (grids ?B ! 0)) (bcs (grids ?B ! 0))
                (bottom_row (grid (grids ?B ! 0)) (var_f (grids ?B ! 0))
                   (var_v (grids ?B ! 0)))\<rparr>]\<rparr>)"
    by blast
  then have b: "bottom_solve patch_spec ?B =
      Inr (mg_two (const_arr 3 3 (Fin (- (1 / 8)))) cyc_f0 cyc_v1 (const_arr 4 4 (Fin 1)) cyc_r1)"
    by (simp add: two_level0 two_update demo_fields(3) two_bottom_row)
  from inst have "vcycle patch_spec ?A =
      raising (fold_raising (descent_step patch_spec) (rev [1..<length (grids ?A)])
                 (zero_coarse ?A)) (\<lambda>s1.
      raising (bottom_solve patch_spec s1) (\<lambda>s2.
      fold_raising (ascent_step patch_spec) [1..<length (grids ?A)] s2))"
    by blast
  then show ?thesis
    unfolding lv two_zero_coarse
    by (simp add: raising_fold_Nil two_descent b two_ascent)
qed

section \<open>smooth on a solution of the discrete equation\<close>




section \<open>solve on an uninitialised solver\<close>

text \<open>
  Claim C8.  \<open>solve\<close> tests the two initialisation flags before anything else,
  and the statement under the test is \<open>msg.fail("ERROR: solution and RHS are not
  initialized")\<close>.  The module imports \<open>mesh.patch\<close>, \<open>math\<close> and \<open>numpy\<close> only, so
  the name \<open>msg\<close> is unbound: on a solver of the 2 by 2 grid on which only
  \<open>initZeros\<close> was called, \<open>solve\<close> ends with \<open>NameError\<close> at that statement.  No
  V-cycle is run, but the exception is not the initialisation error the
  statement was written to report.
\<close>

theorem solve_uninitialised_raises_NameError:
  "ccMG2d_init patch_spec 2 2 (Fin 0) (Fin 1) (Fin 0) (Fin 1)
     ''periodic'' ''periodic'' ''periodic'' ''periodic'' (Fin 0) (Fin (- 1)) 0 = Inr mg_2x2 \<and>
   run patch_spec mg_2x2 [InitZeros] = Inr (mg_2x2\<lparr>initializedSolution := 1\<rparr>) \<and>
   solve patch_spec (mg_2x2\<lparr>initializedSolution := 1\<rparr>) (Fin (1 / 10 ^ 11)) =
     Inl (NameError ''msg'')"
proof -
  have "solve patch_spec (mg_2x2\<lparr>initializedSolution := 1\<rparr>) (Fin (1 / 10 ^ 11)) =
        Inl (NameError ''msg'')"
    by (simp add: solve_def mg_2x2_def)
  then show ?thesis using init_2x2 run_2x2 by simp
qed

section \<open>What smooth leaves unchanged\<close>

text \<open>
  Claim C10.  A call of \<open>smooth\<close> that returns has changed the array \<open>v\<close> of the
  level it was called on and nothing else: the arrays \<open>f\<close> and \<open>r\<close> of that
  level, every other level and every other attribute of the solver are as
  before.
\<close>

theorem smooth_frame:
  assumes "smooth P self level n = Inr s'"
  shows "\<exists>k v'. py_index (length (grids self)) level = Some k \<and>
           s' = self\<lparr>grids := (grids self)[k := (grids self ! k)\<lparr>var_v := v'\<rparr>]\<rparr> \<and>
           var_f (grids s' ! k) = var_f (grids self ! k) \<and>
           var_r (grids s' ! k) = var_r (grids self ! k) \<and>
           (\<forall>l. l \<noteq> k \<longrightarrow> grids s' ! l = grids self ! l)"
proof -
  from assms obtain k v' where k: "py_index (length (grids self)) level = Some k"
    and s': "s' = self\<lparr>grids := (grids self)[k := (grids self ! k)\<lparr>var_v := v'\<rparr>]\<rparr>"
    by (auto simp: smooth_def Let_def raising_eq_Inr split: option.splits)
  have kl: "k < length (grids self)"
    using k by (auto simp: py_index_def split: if_splits)
  show ?thesis
    using k s' kl by (intro exI [of _ k] exI [of _ v']) simp
qed

theorem smooth_frame_witness:
  "smooth patch_spec mg_demo 1 1 =
     Inr (mg_demo\<lparr>grids := (grids mg_demo)[1 := (grids mg_demo ! 1)\<lparr>var_v := demo_v\<rparr>]\<rparr>) \<and>
   (\<exists>k v'. py_index (length (grids mg_demo)) 1 = Some k \<and>
      mg_demo\<lparr>grids := (grids mg_demo)[1 := (grids mg_demo ! 1)\<lparr>var_v := demo_v\<rparr>]\<rparr> =
        mg_demo\<lparr>grids := (grids mg_demo)[k := (grids mg_demo ! k)\<lparr>var_v := v'\<rparr>]\<rparr> \<and>
      var_f (grids (mg_demo\<lparr>grids := (grids mg_demo)[1 := (grids mg_demo ! 1)\<lparr>var_v := demo_v\<rparr>]\<rparr>) ! k) =
        var_f (grids mg_demo ! k) \<and>
      var_r (grids (mg_demo\<lparr>grids := (grids mg_demo)[1 := (grids mg_demo ! 1)\<lparr>var_v := demo_v\<rparr>]\<rparr>) ! k) =
        var_r (grids mg_demo ! k) \<and>
      (\<forall>l. l \<noteq> k \<longrightarrow>
         grids (mg_demo\<lparr>grids := (grids mg_demo)[1 := (grids mg_demo ! 1)\<lparr>var_v := demo_v\<rparr>]\<rparr>) ! l =
         grids mg_demo ! l))"
  using smooth_frame [OF smooth_demo] smooth_demo by blast

end
